theory Spec2Isabelle
  imports Complex_Main
begin

section \<open>Data model (src/types/analysis.ts)\<close>

text \<open>
  JavaScript numbers are modelled as rationals. The arithmetic on times, which decides
  how often the sampling loop runs and what it reports, is rounded to binary64 as the
  engine rounds it; the arithmetic on picture measurements (areas, scores, normalised
  coordinates) is carried out without rounding. The two results of a division that the
  rationals do not have, \<open>NaN\<close> and the infinities, are written out where the source can
  reach them. Pixel coordinates are results of \<open>Math.round\<close> and therefore integers.
\<close>

record DetectionPoint =
  dp_time :: rat
  dp_x :: int
  dp_y :: int
  dp_normX :: rat
  dp_normY :: rat
  dp_confidence :: rat

record HawkEyePoint =
  hp_time :: rat
  hp_distance :: rat
  hp_lateral :: rat
  hp_height :: rat
  hp_confidence :: rat

section \<open>Bounce marker of the Hawk-Eye view (HawkEyeView)\<close>

definition PITCH_LENGTH_METERS :: rat where
  "PITCH_LENGTH_METERS = 2012 / 100"

definition PITCH_WIDTH_METERS :: rat where
  "PITCH_WIDTH_METERS = 305 / 100"

text \<open>
  \<^verbatim>\<open>const isBounceCandidate = index > 0 && point.height < points[index - 1].height;\<close>
  The index is that of \<open>forEach\<close>, so it is in range, and \<open>index - 1\<close> is only read
  when \<open>index > 0\<close>.
\<close>

definition isBounceCandidate :: "HawkEyePoint list \<Rightarrow> nat \<Rightarrow> bool" where
  "isBounceCandidate points index \<longleftrightarrow>
     index > 0 \<and> hp_height (points ! index) < hp_height (points ! (index - 1))"

text \<open>
  One pass of the \<open>forEach\<close> callback over the variable \<open>bestBounce\<close>
  (\<open>null\<close> is \<open>None\<close>; an object is always truthy, so \<open>!bestBounce\<close> is \<open>= None\<close>).
\<close>

definition bounceStep :: "HawkEyePoint list \<Rightarrow> nat \<Rightarrow> HawkEyePoint option \<Rightarrow> HawkEyePoint option" where
  "bounceStep points index bestBounce =
     (if isBounceCandidate points index \<and> bestBounce = None
      then Some (points ! index) else bestBounce)"

text \<open>The \<open>bouncePoint\<close> field of the memoised value, with the early return on no points.\<close>

definition bouncePoint :: "HawkEyePoint list \<Rightarrow> HawkEyePoint option" where
  "bouncePoint points =
     (if points = [] then None
      else fold (bounceStep points) [0..<length points] None)"

text \<open>
  Centre \<open>(cx, cy)\<close> of the impact circle that is drawn when \<open>bouncePoint\<close> is set:
  \<open>cy\<close> is where the point's own \<open>distance\<close> is reported on the pitch.
\<close>

definition bounceMarker :: "HawkEyePoint \<Rightarrow> rat \<times> rat" where
  "bounceMarker p =
     (50 + (hp_lateral p / (PITCH_WIDTH_METERS / 2 + 6 / 10)) * 38,
      200 - (hp_distance p / PITCH_LENGTH_METERS) * 180)"

text \<open>
  The wording of the specification, for comparison: the first index, in time order, whose
  height is lower than that of the point just before it.
\<close>

definition descends :: "HawkEyePoint list \<Rightarrow> nat \<Rightarrow> bool" where
  "descends points i \<longleftrightarrow> 0 < i \<and> i < length points \<and>
     hp_height (points ! i) < hp_height (points ! (i - 1))"

definition firstDescent :: "HawkEyePoint list \<Rightarrow> nat option" where
  "firstDescent points = List.find (descends points) [0..<length points]"

section \<open>Thrown values\<close>

text \<open>
  A \<open>throw\<close> or a rejected promise is the left summand of a result. The source throws
  \<open>Error\<close> objects with a message; the vision runtime throws values that are no
  \<open>Error\<close> instances.
\<close>

datatype exn = Error string | NonError

section \<open>Working buffers of the vision runtime\<close>

text \<open>
  A \<open>cv.Mat\<close> or \<open>cv.MatVector\<close> occupies memory of the runtime until its
  \<open>delete()\<close> is called. The runtime's memory is modelled by the handles handed out so
  far, of which \<open>live\<close> lists those not yet deleted. \<open>cv.Size\<close> values are plain
  objects and own no buffer.
\<close>

record cvheap =
  nextHandle :: nat
  live :: "nat list"

definition emptyHeap :: cvheap where
  "emptyHeap = \<lparr>nextHandle = 0, live = []\<rparr>"

definition cv_new :: "cvheap \<Rightarrow> nat \<times> cvheap" where
  "cv_new H = (nextHandle H, \<lparr>nextHandle = Suc (nextHandle H), live = live H @ [nextHandle H]\<rparr>)"

definition cv_delete :: "nat \<Rightarrow> cvheap \<Rightarrow> cvheap" where
  "cv_delete h H = H\<lparr>live := removeAll h (live H)\<rparr>"

section \<open>Ball localisation (detectBall)\<close>

text \<open>
  The image operations themselves (resize, blur, colour conversion, range masks,
  morphology, contour extraction, moments) belong to the vision runtime. A frame is what
  they make of the canvas: the size of the matrix read from it and, for each external
  contour of the mask, the numbers \<open>detectBall\<close> asks for.
\<close>

record contour =
  contourArea :: rat
  arcLength :: rat
  m00 :: rat
  m10 :: rat
  m01 :: rat

record frame =
  mat_cols :: nat
  mat_rows :: nat
  contours :: "contour list"

record candidate =
  cand_x :: int
  cand_y :: int
  cand_confidence :: rat

text \<open>\<open>Mat.empty()\<close>: the matrix has no element.\<close>

definition mat_empty :: "frame \<Rightarrow> bool" where
  "mat_empty f \<longleftrightarrow> mat_cols f = 0 \<or> mat_rows f = 0"

text \<open>\<open>Math.PI\<close> is the double nearest to \<open>\<pi>\<close>, a rational number.\<close>

definition Math_PI :: rat where
  "Math_PI = 884279719003555 / 281474976710656"

text \<open>\<open>Math.round\<close> rounds halves upwards.\<close>

definition Math_round :: "rat \<Rightarrow> int" where
  "Math_round q = \<lfloor>q + 1 / 2\<rfloor>"

definition downscaleWidth :: nat where
  "downscaleWidth = 480"

text \<open>
  The loop over the contours. Each \<open>contours.get(i)\<close> hands out a new handle; the two
  \<open>continue\<close> statements leave the body before \<open>contour.delete()\<close>.
\<close>

fun scanContours ::
  "contour list \<Rightarrow> int \<Rightarrow> int \<Rightarrow> rat \<Rightarrow> cvheap \<Rightarrow> (int \<times> rat) \<times> cvheap" where
  "scanContours [] i bestContourIndex bestScore H = ((bestContourIndex, bestScore), H)"
| "scanContours (c # cs) i bestContourIndex bestScore H =
     (let (contour, H) = cv_new H;
          area = contourArea c
      in if area < 15 then scanContours cs (i + 1) bestContourIndex bestScore H
         else
           let perimeter = arcLength c
           in if perimeter = 0 then scanContours cs (i + 1) bestContourIndex bestScore H
              else
                let circularity = (4 * Math_PI * area) / (perimeter * perimeter);
                    score = circularity * area;
                    (bestScore, bestContourIndex) =
                      (if score > bestScore then (score, i) else (bestScore, bestContourIndex))
                in scanContours cs (i + 1) bestContourIndex bestScore (cv_delete contour H))"

text \<open>
  The part after the loop that reads the best contour: its handle is deleted whether or
  not the zeroth moment vanishes.
\<close>

definition locateBest ::
  "frame \<Rightarrow> nat \<Rightarrow> nat \<Rightarrow> int \<Rightarrow> rat \<Rightarrow> cvheap \<Rightarrow> candidate option \<times> cvheap" where
  "locateBest f resized_cols resized_rows bestContourIndex bestScore H =
     (if bestContourIndex \<ge> 0 then
        let (contour, H) = cv_new H;
            moments = contours f ! nat bestContourIndex;
            result =
              (if m00 moments \<noteq> 0 then
                 let scaleFactorX = of_nat (mat_cols f) / of_nat resized_cols;
                     scaleFactorY = of_nat (mat_rows f) / of_nat resized_rows;
                     cx = Math_round ((m10 moments / m00 moments) * scaleFactorX);
                     cy = Math_round ((m01 moments / m00 moments) * scaleFactorY);
                     confidence = min 1 (bestScore / 1500)
                 in Some \<lparr>cand_x = cx, cand_y = cy, cand_confidence = confidence\<rparr>
               else None)
        in (result, cv_delete contour H)
      else (None, H))"

text \<open>
  \<open>detectBall\<close>. \<open>cv.resize\<close> refuses an empty target size by throwing, which the
  source does not catch; a frame that is not empty has a target width of at least one, so
  this happens when the target height rounds to zero.
\<close>

definition detectBall :: "frame \<Rightarrow> cvheap \<Rightarrow> (exn + candidate option) \<times> cvheap" where
  "detectBall f H =
     (let (mat, H) = cv_new H
      in if mat_empty f then (Inr None, cv_delete mat H)
         else
           let scale :: rat =
                 (if mat_cols f > downscaleWidth
                  then of_nat downscaleWidth / of_nat (mat_cols f) else 1);
               targetWidth = Math_round (of_nat (mat_cols f) * scale);
               targetHeight = Math_round (of_nat (mat_rows f) * scale);
               (resized, H) = cv_new H
           in if targetWidth \<le> 0 \<or> targetHeight \<le> 0 then (Inl NonError, H)
              else
                let (blurred, H) = cv_new H;
                    (rgb, H) = cv_new H;
                    (hsv, H) = cv_new H;
                    (lowerRed1, H) = cv_new H;
                    (upperRed1, H) = cv_new H;
                    (lowerRed2, H) = cv_new H;
                    (upperRed2, H) = cv_new H;
                    (mask1, H) = cv_new H;
                    (mask2, H) = cv_new H;
                    (mask, H) = cv_new H;
                    (kernel, H) = cv_new H;
                    (contours_handle, H) = cv_new H;
                    (hierarchy, H) = cv_new H;
                    ((bestContourIndex, bestScore), H) = scanContours (contours f) 0 (- 1) 0 H;
                    (result, H) =
                      locateBest f (nat targetWidth) (nat targetHeight) bestContourIndex bestScore H;
                    H = cv_delete mat H;
                    H = cv_delete resized H;
                    H = cv_delete blurred H;
                    H = cv_delete rgb H;
                    H = cv_delete hsv H;
                    H = cv_delete mask H;
                    H = cv_delete mask1 H;
                    H = cv_delete mask2 H;
                    H = cv_delete kernel H;
                    H = cv_delete contours_handle H;
                    H = cv_delete hierarchy H;
                    H = cv_delete lowerRed1 H;
                    H = cv_delete upperRed1 H;
                    H = cv_delete lowerRed2 H;
                    H = cv_delete upperRed2 H
                in (Inr result, H))"

text \<open>
  The quantities of the specification's step 5, for comparison with the loop: the
  circularity of a contour, its combined score, and the contours that take part in the
  maximum.
\<close>

definition circularity :: "contour \<Rightarrow> rat" where
  "circularity c = (4 * Math_PI * contourArea c) / (arcLength c * arcLength c)"

definition combinedScore :: "contour \<Rightarrow> rat" where
  "combinedScore c = circularity c * contourArea c"

definition qualifies :: "contour \<Rightarrow> bool" where
  "qualifies c \<longleftrightarrow> contourArea c \<ge> 15 \<and> arcLength c \<noteq> 0"

text \<open>The scale factor of \<open>detectBall\<close> by itself, for the statements about it.\<close>

definition targetScale :: "frame \<Rightarrow> rat" where
  "targetScale f =
     (if mat_cols f > downscaleWidth then of_nat downscaleWidth / of_nat (mat_cols f) else 1)"

section \<open>Binary64 arithmetic\<close>

text \<open>
  A JavaScript number is a binary64 value, and every arithmetic operation gives the
  binary64 value nearest to the exact result, a tie going to the even significand.
  \<open>b64\<close> is this rounding on the rationals. \<open>b64_quantum\<close> searches, halving or
  doubling from 1, for the power of two \<open>q\<close> with \<open>2\<^sup>5\<^sup>2 q \<le> |x| < 2\<^sup>5\<^sup>3 q\<close>, the spacing
  of the binary64 values around \<open>x\<close>; \<open>b64_fuel\<close> bounds the number of steps the
  search can need. The exponent is not bounded, so \<open>b64\<close> agrees with the engine for
  magnitudes between \<open>2\<^sup>-\<^sup>1\<^sup>0\<^sup>2\<^sup>2\<close> and \<open>2\<^sup>1\<^sup>0\<^sup>2\<^sup>4\<close>, which times and durations in
  seconds do not leave, and on zero.
\<close>

fun b64_quantum :: "nat \<Rightarrow> rat \<Rightarrow> rat \<Rightarrow> rat" where
  "b64_quantum 0 a q = q"
| "b64_quantum (Suc fuel) a q =
     (if a < 2 ^ 52 * q then b64_quantum fuel a (q / 2)
      else if 2 ^ 53 * q \<le> a then b64_quantum fuel a (2 * q)
      else q)"

definition b64_fuel :: "rat \<Rightarrow> nat" where
  "b64_fuel a = nat \<lfloor>a\<rfloor> + nat \<lfloor>1 / a\<rfloor> + 54"

definition roundHalfEven :: "rat \<Rightarrow> int" where
  "roundHalfEven m =
     (let k = \<lfloor>m\<rfloor>; r = m - of_int k
      in if r < 1 / 2 then k else if 1 / 2 < r then k + 1 else if even k then k else k + 1)"

definition b64 :: "rat \<Rightarrow> rat" where
  "b64 x =
     (let a = \<bar>x\<bar>; q = b64_quantum (b64_fuel a) a 1
      in of_int (roundHalfEven (x / q)) * q)"

text \<open>
  What the search is to find: \<open>q\<close> is the spacing of the binary64 values around the
  positive number \<open>a\<close>.
\<close>

definition isQuantum :: "rat \<Rightarrow> rat \<Rightarrow> bool" where
  "isQuantum a q \<longleftrightarrow> (\<exists>j :: int. q = 2 powi j) \<and> 2 ^ 52 * q \<le> a \<and> a < 2 ^ 53 * q"

section \<open>Temporal sampling (extractDetections)\<close>

text \<open>
  The times of the sampler are computed as the engine computes them: a decimal literal
  is the binary64 value nearest to it, and sums, differences and quotients of times are
  rounded.
\<close>

definition SAMPLE_INTERVAL_SECONDS :: rat where
  "SAMPLE_INTERVAL_SECONDS = b64 (8 / 100)"

definition MAX_SAMPLES :: nat where
  "MAX_SAMPLES = 320"

text \<open>
  The video element after \<open>ensureVideoReady\<close> has resolved: its intrinsic size, its
  duration (a finite number of seconds) and its playback position. Two functions stand for
  the media behind it: whether a seek to a position ends in the \<open>error\<close> event instead
  of \<open>seeked\<close>, and which contours the vision runtime finds in the picture shown at a
  position.
\<close>

record video =
  videoWidth :: nat
  videoHeight :: nat
  duration :: rat
  currentTime :: rat
  seekFails :: "rat \<Rightarrow> bool"
  contoursAt :: "rat \<Rightarrow> contour list"

text \<open>
  \<open>seekVideo\<close>: nothing happens within a hundredth of a second of the target;
  otherwise the position is set to the clamped target and the promise settles with the
  event that follows.
\<close>

definition seekVideo :: "video \<Rightarrow> rat \<Rightarrow> exn + video" where
  "seekVideo video time =
     (if \<bar>b64 (currentTime video - time)\<bar> < b64 (1 / 100) then Inr video
      else
        let target = min (max time 0) (duration video)
        in if seekFails video target then Inl (Error ''Failed to seek video frame.'')
           else Inr (video\<lparr>currentTime := target\<rparr>))"

text \<open>
  The values \<open>onProgress\<close> can receive: \<open>Math.min(1, time / duration)\<close> with the
  quotient rounded. In the rationals a quotient by zero has no meaning, so the three
  results of \<open>time / duration\<close> for a zero duration are written out: \<open>0 / 0\<close> is
  \<open>NaN\<close>, which \<open>Math.min\<close> returns as it is, a positive numerator gives
  \<open>+\<infinity>\<close>, of which the minimum with 1 is 1, and a negative one gives \<open>-\<infinity>\<close>.
\<close>

datatype number = NaN | MinusInfinity | Num rat

definition progressValue :: "rat \<Rightarrow> rat \<Rightarrow> number" where
  "progressValue time duration' =
     (if duration' = 0
      then (if time = 0 then NaN else if time > 0 then Num 1 else MinusInfinity)
      else Num (min 1 (b64 (time / duration'))))"

text \<open>
  The picture drawn on the canvas, which has the video's intrinsic size, as the vision
  runtime sees it.
\<close>

definition drawImage :: "nat \<Rightarrow> nat \<Rightarrow> video \<Rightarrow> frame" where
  "drawImage width height video =
     \<lparr>mat_cols = width, mat_rows = height, contours = contoursAt video (currentTime video)\<rparr>"

text \<open>
  The \<open>for\<close> loop. Besides the loop variables and the detections collected so far it
  carries the list of values passed to \<open>onProgress\<close>, oldest first. A rejected seek and
  a value thrown by the vision runtime end the loop. \<open>time += sampleInterval\<close> is a
  binary64 addition, so \<open>time\<close> is the rounded running sum and not a multiple of the
  interval.
\<close>

function sampleLoop ::
  "nat \<Rightarrow> nat \<Rightarrow> rat \<Rightarrow> rat \<Rightarrow> video \<Rightarrow> rat \<Rightarrow> nat \<Rightarrow> DetectionPoint list \<Rightarrow> number list
   \<Rightarrow> (exn + DetectionPoint list) \<times> number list" where
  "sampleLoop width height duration' sampleInterval video time sampleIndex detections reported =
     (if time \<le> duration' \<and> sampleIndex \<le> MAX_SAMPLES then
        case seekVideo video time of
          Inl e \<Rightarrow> (Inl e, reported)
        | Inr video \<Rightarrow>
            (case fst (detectBall (drawImage width height video) emptyHeap) of
               Inl e \<Rightarrow> (Inl e, reported)
             | Inr detection \<Rightarrow>
                 sampleLoop width height duration' sampleInterval video
                   (b64 (time + sampleInterval)) (sampleIndex + 1)
                   (case detection of
                      None \<Rightarrow> detections
                    | Some d \<Rightarrow>
                        detections @
                        [\<lparr>dp_time = time, dp_x = cand_x d, dp_y = cand_y d,
                          dp_normX = of_int (cand_x d) / of_nat width,
                          dp_normY = of_int (cand_y d) / of_nat height,
                          dp_confidence = cand_confidence d\<rparr>])
                   (reported @ [progressValue time duration']))
      else (Inr detections, reported))"
  by pat_completeness auto
termination
  by (relation "measure (\<lambda>(width, height, duration', sampleInterval, video, time,
        sampleIndex, detections, reported). Suc MAX_SAMPLES - sampleIndex)") auto

declare sampleLoop.simps [simp del]

text \<open>
  The header of the loop by itself: the values of \<open>time\<close> for which the body is
  entered, given the values of \<open>time\<close> and \<open>sampleIndex\<close> to start from.
\<close>

function sampleTimes :: "rat \<Rightarrow> rat \<Rightarrow> rat \<Rightarrow> nat \<Rightarrow> rat list" where
  "sampleTimes duration' sampleInterval time sampleIndex =
     (if time \<le> duration' \<and> sampleIndex \<le> MAX_SAMPLES
      then time #
        sampleTimes duration' sampleInterval (b64 (time + sampleInterval)) (sampleIndex + 1)
      else [])"
  by pat_completeness auto
termination
  by (relation "measure (\<lambda>(duration', sampleInterval, time, sampleIndex).
        Suc MAX_SAMPLES - sampleIndex)") auto

declare sampleTimes.simps [simp del]

text \<open>
  \<open>extractDetections\<close>, with the outcome of \<open>canvas.getContext('2d')\<close> as an
  argument (\<open>False\<close> when it returns \<open>null\<close>). The result pairs what the promise
  settles with and the values reported through \<open>onProgress\<close> until then.
\<close>

definition extractDetections :: "bool \<Rightarrow> video \<Rightarrow> (exn + DetectionPoint list) \<times> number list" where
  "extractDetections ctx video =
     (let width = videoWidth video;
          height = videoHeight video
      in if width = 0 \<or> height = 0
         then (Inl (Error ''Video dimensions unavailable. Please choose a different file.''), [])
         else if \<not> ctx then (Inl (Error ''Unable to create analysis surface.''), [])
         else
           let duration' = duration video;
               sampleInterval =
                 max SAMPLE_INTERVAL_SECONDS (b64 (duration' / of_nat MAX_SAMPLES))
           in sampleLoop width height duration' sampleInterval video 0 0 [] [])"

text \<open>The sampling interval as a function of the duration, for the statements about it.\<close>

definition sampleIntervalOf :: "rat \<Rightarrow> rat" where
  "sampleIntervalOf duration' =
     max SAMPLE_INTERVAL_SECONDS (b64 (duration' / of_nat MAX_SAMPLES))"

section \<open>The analysis run (handleAnalyze of VideoAnalyzer)\<close>

text \<open>The component's state variables.\<close>

record state =
  error :: "string option"
  isAnalyzing :: bool
  detections :: "DetectionPoint list"
  trajectory :: "HawkEyePoint list"
  progress :: number
  cvReady :: bool
  analysisTimestamp :: "nat option"

text \<open>The message shown for a caught value.\<close>

definition errorMessage :: "exn \<Rightarrow> string" where
  "errorMessage analysisError =
     (case analysisError of
        Error message \<Rightarrow> message
      | NonError \<Rightarrow> ''Video analysis failed due to an unexpected error.'')"

text \<open>The \<open>catch\<close> clause followed by the \<open>finally\<close> clause, and the latter alone.\<close>

definition finallyClause :: "state \<Rightarrow> state" where
  "finallyClause s = s\<lparr>isAnalyzing := False\<rparr>"

definition catchClause :: "exn \<Rightarrow> state \<Rightarrow> state" where
  "catchClause analysisError s = finallyClause (s\<lparr>error := Some (errorMessage analysisError)\<rparr>)"

text \<open>
  \<open>handleAnalyze\<close>. Its arguments besides the state: the projection
  \<open>convertDetectionsToHawkEye\<close> of \<open>lib/trajectory\<close>, which is imported and may
  throw like any call; the value of \<open>Date.now()\<close>; the outcome of
  \<open>getContext\<close>; and \<open>videoRef.current\<close>.
\<close>

definition handleAnalyze ::
  "(DetectionPoint list \<Rightarrow> exn + HawkEyePoint list) \<Rightarrow> nat \<Rightarrow> bool \<Rightarrow> video option \<Rightarrow> state \<Rightarrow> state" where
  "handleAnalyze convert now ctx videoRef s =
     (case videoRef of
        None \<Rightarrow> s\<lparr>error := Some ''Video element is not ready yet.''\<rparr>
      | Some video \<Rightarrow>
          if \<not> cvReady s
          then s\<lparr>error := Some ''Computer vision engine is still loading. Please wait a moment.''\<rparr>
          else
            let s = s\<lparr>isAnalyzing := True, error := None, progress := Num 0\<rparr>;
                (outcome, reported) = extractDetections ctx video;
                s = fold (\<lambda>value s. s\<lparr>progress := value\<rparr>) reported s
            in case outcome of
                 Inl e \<Rightarrow> catchClause e s
               | Inr detectionPoints \<Rightarrow>
                   if detectionPoints = []
                   then catchClause (Error ''No valid ball samples detected. Ensure the ball is clearly visible and contrasts with the pitch.'') s
                   else
                     (case convert detectionPoints of
                        Inl e \<Rightarrow> catchClause e s
                      | Inr hawkEyePoints \<Rightarrow>
                          finallyClause (s\<lparr>detections := detectionPoints,
                                     trajectory := hawkEyePoints,
                                     analysisTimestamp := Some now,
                                     progress := Num 1\<rparr>)))"

text \<open>
  The three ways in which the body of the \<open>try\<close> statement throws:
  \<open>extractDetections\<close> rejects, it returns no detection at all, or the projection
  throws.
\<close>

definition runFailed ::
  "(DetectionPoint list \<Rightarrow> exn + HawkEyePoint list) \<Rightarrow> bool \<Rightarrow> video \<Rightarrow> bool" where
  "runFailed convert ctx v \<longleftrightarrow>
     (\<exists>e. fst (extractDetections ctx v) = Inl e) \<or>
     fst (extractDetections ctx v) = Inr [] \<or>
     (\<exists>ds e. fst (extractDetections ctx v) = Inr ds \<and> convert ds = Inl e)"

section \<open>Trajectory projection (convertDetectionsToHawkEye)\<close>

text \<open>
  Modelled from the spec: \<open>convertDetectionsToHawkEye\<close> of \<open>lib/trajectory\<close>, which
  \<open>VideoAnalyzer\<close> imports and calls but which is not among the source files. The
  specification (4.3, with the first testable property of 8) makes it a pure map over the
  detections, in order, one \<open>HawkEyePoint\<close> for each \<open>DetectionPoint\<close>: time and
  confidence pass through unchanged, and distance, lateral offset and height come from
  the normalised image position by a mapping that the specification leaves to
  calibration. The three mappings are arguments here.
\<close>

definition projectPoint ::
  "(rat \<Rightarrow> rat \<Rightarrow> rat) \<Rightarrow> (rat \<Rightarrow> rat \<Rightarrow> rat) \<Rightarrow> (rat \<Rightarrow> rat \<Rightarrow> rat) \<Rightarrow> DetectionPoint \<Rightarrow> HawkEyePoint" where
  "projectPoint distanceOf lateralOf heightOf d =
     \<lparr>hp_time = dp_time d,
      hp_distance = distanceOf (dp_normX d) (dp_normY d),
      hp_lateral = lateralOf (dp_normX d) (dp_normY d),
      hp_height = heightOf (dp_normX d) (dp_normY d),
      hp_confidence = dp_confidence d\<rparr>"

definition convertDetectionsToHawkEye ::
  "(rat \<Rightarrow> rat \<Rightarrow> rat) \<Rightarrow> (rat \<Rightarrow> rat \<Rightarrow> rat) \<Rightarrow> (rat \<Rightarrow> rat \<Rightarrow> rat) \<Rightarrow>
   DetectionPoint list \<Rightarrow> HawkEyePoint list" where
  "convertDetectionsToHawkEye distanceOf lateralOf heightOf detections' =
     map (projectPoint distanceOf lateralOf heightOf) detections'"

section \<open>Concrete inputs\<close>

definition demoTrajectory :: "HawkEyePoint list" where
  "demoTrajectory =
     [\<lparr>hp_time = 0, hp_distance = 2, hp_lateral = 0, hp_height = 1, hp_confidence = 1\<rparr>,
      \<lparr>hp_time = 1, hp_distance = 6, hp_lateral = 0, hp_height = 2, hp_confidence = 1\<rparr>,
      \<lparr>hp_time = 2, hp_distance = 11, hp_lateral = 0, hp_height = 3 / 2, hp_confidence = 1\<rparr>,
      \<lparr>hp_time = 3, hp_distance = 15, hp_lateral = 0, hp_height = 1, hp_confidence = 1\<rparr>]"

text \<open>A round blob of a hundred pixels around the point (240, 135), and a speck.\<close>

definition ball :: contour where
  "ball = \<lparr>contourArea = 100, arcLength = 36, m00 = 100, m10 = 24000, m01 = 13500\<rparr>"

definition speck :: contour where
  "speck = \<lparr>contourArea = 10, arcLength = 12, m00 = 10, m10 = 500, m01 = 500\<rparr>"

text \<open>
  A clip of 640 by 360 pixels at position zero, with its duration, the positions that
  cannot be sought and the contours of its pictures as arguments.
\<close>

definition clip :: "rat \<Rightarrow> (rat \<Rightarrow> bool) \<Rightarrow> (rat \<Rightarrow> contour list) \<Rightarrow> video" where
  "clip d fails pictures =
     \<lparr>videoWidth = 640, videoHeight = 360, duration = d, currentTime = 0,
      seekFails = fails, contoursAt = pictures\<rparr>"

text \<open>Clips without any ball, of any duration.\<close>

definition blankClip :: "rat \<Rightarrow> video" where
  "blankClip d = clip d (\<lambda>t. False) (\<lambda>t. [])"

text \<open>A clip of an eighth of a second that shows the ball in every picture.\<close>

definition ballClip :: video where
  "ballClip = clip (1 / 8) (\<lambda>t. False) (\<lambda>t. [speck, ball])"

text \<open>A two-second clip without a ball on which every seek fails.\<close>

definition brokenClip :: video where
  "brokenClip = clip 2 (\<lambda>t. True) (\<lambda>t. [])"

text \<open>A state that holds the results of an earlier run.\<close>

definition earlierResults :: state where
  "earlierResults =
     \<lparr>error = None, isAnalyzing = False,
      detections = [\<lparr>dp_time = 0, dp_x = 320, dp_y = 180, dp_normX = 1 / 2, dp_normY = 1 / 2,
                      dp_confidence = 1\<rparr>],
      trajectory = [\<lparr>hp_time = 0, hp_distance = 10, hp_lateral = 0, hp_height = 1,
                      hp_confidence = 1\<rparr>],
      progress = Num 1, cvReady = True, analysisTimestamp = Some 1000\<rparr>"

text \<open>A clip whose intrinsic width is not available.\<close>

definition noDimsClip :: video where
  "noDimsClip = (blankClip 2)\<lparr>videoWidth := 0\<rparr>"

text \<open>A projection that places every detection at the same point of the pitch.\<close>

definition flatProjection :: "DetectionPoint list \<Rightarrow> exn + HawkEyePoint list" where
  "flatProjection ds =
     Inr (convertDetectionsToHawkEye (\<lambda>nx ny. 10) (\<lambda>nx ny. 0) (\<lambda>nx ny. 1) ds)"

section \<open>Properties of the bounce marker\<close>

lemma fold_bounceStep_Some:
  "fold (bounceStep points) is (Some p) = Some p"
  by (induction "is") (simp_all add: bounceStep_def)

lemma fold_bounceStep_None:
  "set is \<subseteq> {0..<length points} \<Longrightarrow>
   fold (bounceStep points) is None = map_option (\<lambda>i. points ! i) (List.find (descends points) is)"
proof (induction "is")
  case Nil
  then show ?case by simp
next
  case (Cons i "is")
  then have i: "i < length points" and rest: "set is \<subseteq> {0..<length points}"
    by auto
  show ?case
  proof (cases "descends points i")
    case True
    with i have "bounceStep points i None = Some (points ! i)"
      by (simp add: bounceStep_def isBounceCandidate_def descends_def)
    with True show ?thesis
      by (simp add: fold_bounceStep_Some)
  next
    case False
    with i have "bounceStep points i None = None"
      by (simp add: bounceStep_def isBounceCandidate_def descends_def)
    with False Cons.IH [OF rest] show ?thesis
      by simp
  qed
qed

lemma bouncePoint_firstDescent:
  "bouncePoint points = map_option (\<lambda>i. points ! i) (firstDescent points)"
proof (cases "points = []")
  case True
  then show ?thesis
    by (simp add: bouncePoint_def firstDescent_def)
next
  case False
  then show ?thesis
    by (simp add: bouncePoint_def firstDescent_def fold_bounceStep_None)
qed

lemma find_upt_None:
  "List.find P [0..<n] = None \<longleftrightarrow> (\<forall>i<n. \<not> P i)"
  by (auto simp: find_None_iff)

lemma find_upt_Some:
  "List.find P [0..<n] = Some i \<longleftrightarrow> i < n \<and> P i \<and> (\<forall>j<i. \<not> P j)"
  by (auto simp: find_Some_iff)

section \<open>Properties of the binary64 rounding\<close>

lemma floor_rat_numeral_divide:
  "\<lfloor>numeral a / numeral b :: rat\<rfloor> = numeral a div numeral b"
  using floor_divide_of_int_eq [of "numeral a" "numeral b", where ?'a = rat] by simp

lemma floor_rat_one_divide:
  "\<lfloor>1 / numeral b :: rat\<rfloor> = 1 div numeral b"
  using floor_divide_of_int_eq [of 1 "numeral b", where ?'a = rat] by simp

lemma b64_quantum_numeral:
  "b64_quantum (numeral k) a q =
     (if a < 2 ^ 52 * q then b64_quantum (pred_numeral k) a (q / 2)
      else if 2 ^ 53 * q \<le> a then b64_quantum (pred_numeral k) a (2 * q)
      else q)"
  by (simp add: numeral_eq_Suc)

text \<open>The search finds the spacing around every positive number.\<close>

lemma b64_quantum_up:
  "\<exists>j :: int. q = 2 powi j \<Longrightarrow> 2 ^ 52 * q \<le> a \<Longrightarrow> a < 2 ^ 53 * q * 2 ^ fuel \<Longrightarrow>
   isQuantum a (b64_quantum fuel a q)"
proof (induction fuel arbitrary: q)
  case 0
  then show ?case by (simp add: isQuantum_def)
next
  case (Suc fuel)
  show ?case
  proof (cases "2 ^ 53 * q \<le> a")
    case True
    from Suc.prems(1) obtain j :: int where "q = 2 powi j" by blast
    then have "2 * q = 2 powi (j + 1)"
      by (simp add: power_int_add)
    then have pow: "\<exists>j :: int. 2 * q = 2 powi j" by blast
    have "isQuantum a (b64_quantum fuel a (2 * q))"
      using True Suc.prems(3) by (intro Suc.IH [OF pow]) (simp_all add: mult_ac)
    with True Suc.prems(2) show ?thesis by simp
  next
    case False
    with Suc.prems(1,2) show ?thesis
      by (simp add: isQuantum_def)
  qed
qed

lemma b64_quantum_down:
  "\<exists>j :: int. q = 2 powi j \<Longrightarrow> a < 2 ^ 53 * q \<Longrightarrow> 2 ^ 52 * q \<le> a * 2 ^ fuel \<Longrightarrow>
   isQuantum a (b64_quantum fuel a q)"
proof (induction fuel arbitrary: q)
  case 0
  then show ?case by (simp add: isQuantum_def)
next
  case (Suc fuel)
  show ?case
  proof (cases "a < 2 ^ 52 * q")
    case True
    from Suc.prems(1) obtain j :: int where "q = 2 powi j" by blast
    then have "q / 2 = 2 powi (j - 1)"
      by (simp add: power_int_diff)
    then have pow: "\<exists>j :: int. q / 2 = 2 powi j" by blast
    have "isQuantum a (b64_quantum fuel a (q / 2))"
      using True Suc.prems(3) by (intro Suc.IH [OF pow]) (simp_all add: mult_ac)
    with True show ?thesis by simp
  next
    case False
    with Suc.prems(1,2) show ?thesis
      by (simp add: isQuantum_def)
  qed
qed

lemma of_nat_less_two_power_rat: "(of_nat n :: rat) < 2 ^ n"
  by (metis of_nat_less_two_power of_nat_less_iff of_nat_numeral of_nat_power)

lemma b64_quantum_correct:
  assumes "0 < a"
  shows "isQuantum a (b64_quantum (b64_fuel a) a 1)"
proof (cases "a < 2 ^ 52")
  case False
  have one: "\<exists>j :: int. (1 :: rat) = 2 powi j"
    by (intro exI [of _ 0]) simp
  have "a < of_int \<lfloor>a\<rfloor> + 1" by linarith
  also have "\<dots> \<le> of_nat (b64_fuel a)"
    using assms by (simp add: b64_fuel_def)
  also have "\<dots> < 2 ^ b64_fuel a"
    by (rule of_nat_less_two_power_rat)
  also have "\<dots> \<le> 2 ^ 53 * 1 * 2 ^ b64_fuel a"
    by simp
  finally have "a < 2 ^ 53 * 1 * 2 ^ b64_fuel a" .
  with False show ?thesis
    by (intro b64_quantum_up one) simp_all
next
  case True
  have one: "\<exists>j :: int. (1 :: rat) = 2 powi j"
    by (intro exI [of _ 0]) simp
  define m where "m = nat \<lfloor>1 / a\<rfloor> + 1"
  have "1 / a < of_int \<lfloor>1 / a\<rfloor> + 1" by linarith
  also have "\<dots> = of_nat m"
    using assms by (simp add: m_def)
  finally have "1 < a * of_nat m"
    using assms by (simp add: field_simps)
  moreover have "(of_nat m :: rat) < 2 ^ m"
    by (rule of_nat_less_two_power_rat)
  then have "a * of_nat m < a * 2 ^ m"
    using assms by (rule mult_strict_left_mono)
  ultimately have am: "1 \<le> a * 2 ^ m"
    by linarith
  have "m + 52 \<le> b64_fuel a"
    by (simp add: m_def b64_fuel_def)
  then have "(2 :: rat) ^ (m + 52) \<le> 2 ^ b64_fuel a"
    by (intro power_increasing) simp_all
  then have "a * 2 ^ (m + 52) \<le> a * 2 ^ b64_fuel a"
    using assms by simp
  moreover have "2 ^ 52 * 1 \<le> a * 2 ^ (m + 52)"
    using am by (simp add: power_add)
  ultimately have "2 ^ 52 * 1 \<le> a * 2 ^ b64_fuel a"
    by linarith
  with True show ?thesis
    by (intro b64_quantum_down one) simp_all
qed

lemma isQuantum_pos: "isQuantum a q \<Longrightarrow> 0 < q"
  by (auto simp: isQuantum_def)

lemma pow2_less_double:
  fixes j k :: int
  assumes "(2 :: rat) powi j < 2 powi k"
  shows "2 * (2 :: rat) powi j \<le> 2 powi k"
proof -
  have "j < k"
  proof (rule ccontr)
    assume "\<not> j < k"
    then have "k \<le> j" by simp
    then have "(2 :: rat) powi k \<le> 2 powi j"
      by (intro power_int_increasing) simp_all
    with assms show False by simp
  qed
  then have "j + 1 \<le> k" by simp
  then have "(2 :: rat) powi (j + 1) \<le> 2 powi k"
    by (intro power_int_increasing) simp_all
  then show ?thesis
    by (simp add: power_int_add)
qed

lemma isQuantum_unique:
  assumes "isQuantum a q" and "isQuantum a r"
  shows "q = r"
proof (rule ccontr)
  assume ne: "q \<noteq> r"
  from assms obtain j k :: int where q: "q = 2 powi j" and r: "r = 2 powi k"
    by (auto simp: isQuantum_def)
  from assms have b: "2 ^ 52 * q \<le> a" "a < 2 ^ 53 * q" "2 ^ 52 * r \<le> a" "a < 2 ^ 53 * r"
    by (simp_all add: isQuantum_def)
  from ne consider "q < r" | "r < q" by linarith
  then show False
  proof cases
    case 1
    then have "2 * q \<le> r" unfolding q r by (rule pow2_less_double)
    with b show False by simp
  next
    case 2
    then have "2 * r \<le> q" unfolding q r by (rule pow2_less_double)
    with b show False by simp
  qed
qed

lemma roundHalfEven_bounds:
  "m - 1 / 2 \<le> of_int (roundHalfEven m) \<and> of_int (roundHalfEven m) \<le> m + 1 / 2"
proof -
  define k where "k = \<lfloor>m\<rfloor>"
  have "of_int k \<le> m" "m < of_int k + 1"
    unfolding k_def by linarith+
  then show ?thesis
    unfolding roundHalfEven_def Let_def k_def [symmetric] by auto
qed

lemma roundHalfEven_of_int [simp]: "roundHalfEven (of_int k) = k"
  by (simp add: roundHalfEven_def)

lemma roundHalfEven_floor: "\<lfloor>m\<rfloor> \<le> roundHalfEven m \<and> roundHalfEven m \<le> \<lfloor>m\<rfloor> + 1"
  by (simp add: roundHalfEven_def Let_def)

lemma roundHalfEven_mono:
  assumes "m \<le> n"
  shows "roundHalfEven m \<le> roundHalfEven n"
proof (cases "\<lfloor>m\<rfloor> = \<lfloor>n\<rfloor>")
  case True
  with assms have "m - of_int \<lfloor>m\<rfloor> \<le> n - of_int \<lfloor>n\<rfloor>"
    by simp
  with True show ?thesis
    by (auto simp: roundHalfEven_def Let_def)
next
  case False
  with assms have "\<lfloor>m\<rfloor> < \<lfloor>n\<rfloor>"
    using floor_mono [OF assms] by simp
  then have "\<lfloor>m\<rfloor> + 1 \<le> \<lfloor>n\<rfloor>" by simp
  with roundHalfEven_floor [of m] roundHalfEven_floor [of n] show ?thesis
    by linarith
qed

lemma roundHalfEven_ge: "of_int k \<le> m \<Longrightarrow> k \<le> roundHalfEven m"
  using roundHalfEven_mono [of "of_int k" m] by simp

lemma roundHalfEven_le: "m \<le> of_int k \<Longrightarrow> roundHalfEven m \<le> k"
  using roundHalfEven_mono [of m "of_int k"] by simp

text \<open>The value of \<open>b64\<close> on a positive number, from the spacing around it.\<close>

lemma isQuantum_arg_pos: "isQuantum x q \<Longrightarrow> 0 < x"
proof -
  assume q: "isQuantum x q"
  then have "0 < 2 ^ 52 * q"
    using isQuantum_pos [OF q] by simp
  with q show "0 < x"
    by (simp add: isQuantum_def)
qed

lemma b64_by_quantum:
  assumes "isQuantum x q"
  shows "b64 x = of_int (roundHalfEven (x / q)) * q"
proof -
  from assms have pos: "0 < x"
    by (rule isQuantum_arg_pos)
  then have "isQuantum x (b64_quantum (b64_fuel x) x 1)"
    by (rule b64_quantum_correct)
  with assms have "b64_quantum (b64_fuel x) x 1 = q"
    by (rule isQuantum_unique [symmetric])
  with pos show ?thesis
    by (simp add: b64_def Let_def)
qed

lemma b64_quantum_exists:
  assumes "0 < x"
  obtains q where "isQuantum x q"
  using b64_quantum_correct [OF assms] by blast

lemma b64_zero [simp]: "b64 0 = 0"
  by (simp add: b64_def roundHalfEven_def Let_def)

text \<open>Rounding moves a positive number by at most the fraction \<open>2\<^sup>-\<^sup>5\<^sup>3\<close> of itself.\<close>

lemma b64_lower:
  assumes "0 < x"
  shows "x * (1 - 1 / 2 ^ 53) \<le> b64 x"
proof -
  from assms obtain q where q: "isQuantum x q"
    by (rule b64_quantum_exists)
  then have qpos: "0 < q" and lo: "2 ^ 52 * q \<le> x"
    by (simp_all add: isQuantum_pos isQuantum_def)
  have "x / q - 1 / 2 \<le> of_int (roundHalfEven (x / q))"
    using roundHalfEven_bounds [of "x / q"] by simp
  then have "(x / q - 1 / 2) * q \<le> of_int (roundHalfEven (x / q)) * q"
    using qpos by (simp only: mult_le_cancel_right_pos)
  moreover have "(x / q - 1 / 2) * q = x - q / 2"
    using qpos by (simp add: field_simps)
  ultimately have "x - q / 2 \<le> b64 x"
    by (simp only: b64_by_quantum [OF q])
  moreover from lo have "q / 2 \<le> x / 2 ^ 53"
    by simp
  ultimately show ?thesis
    by (simp add: algebra_simps)
qed

lemma b64_pos: "0 < x \<Longrightarrow> 0 < b64 x"
proof -
  assume x: "0 < x"
  then have "0 < x * (1 - 1 / 2 ^ 53)"
    by simp
  with b64_lower [OF x] show ?thesis
    by linarith
qed

lemma b64_nonneg: "0 \<le> x \<Longrightarrow> 0 \<le> b64 x"
  using b64_pos [of x] by (cases "x = 0") simp_all

text \<open>Rounding keeps the order of non-negative numbers.\<close>

lemma b64_mono_pos:
  assumes "0 < x" and "x \<le> y"
  shows "b64 x \<le> b64 y"
proof -
  from assms obtain q where q: "isQuantum x q"
    by (auto intro: b64_quantum_exists)
  from assms have "0 < y" by simp
  then obtain r where r: "isQuantum y r"
    by (rule b64_quantum_exists)
  from q r have qpos: "0 < q" and rpos: "0 < r"
    by (simp_all add: isQuantum_pos)
  from q r obtain j k :: int where qj: "q = 2 powi j" and rk: "r = 2 powi k"
    by (auto simp: isQuantum_def)
  from q r have b: "2 ^ 52 * q \<le> x" "x < 2 ^ 53 * q" "2 ^ 52 * r \<le> y" "y < 2 ^ 53 * r"
    by (simp_all add: isQuantum_def)
  consider "q = r" | "q < r" | "r < q" by linarith
  then show ?thesis
  proof cases
    case 1
    from assms(2) rpos have "x / r \<le> y / r"
      by (simp add: divide_right_mono)
    then have "roundHalfEven (x / r) \<le> roundHalfEven (y / r)"
      by (rule roundHalfEven_mono)
    then have "(of_int (roundHalfEven (x / r)) :: rat) \<le> of_int (roundHalfEven (y / r))"
      by simp
    with rpos have "of_int (roundHalfEven (x / r)) * r \<le> of_int (roundHalfEven (y / r)) * r"
      by (simp only: mult_le_cancel_right_pos)
    with 1 show ?thesis
      by (simp add: b64_by_quantum [OF q] b64_by_quantum [OF r])
  next
    case 2
    then have double: "2 * q \<le> r" unfolding qj rk by (rule pow2_less_double)
    have "x / q \<le> of_int (2 ^ 53)"
      using b(2) qpos by (simp add: field_simps)
    then have "roundHalfEven (x / q) \<le> 2 ^ 53"
      by (rule roundHalfEven_le)
    then have "(of_int (roundHalfEven (x / q)) :: rat) \<le> 2 ^ 53"
      by (metis of_int_le_iff of_int_numeral of_int_power)
    with qpos have "of_int (roundHalfEven (x / q)) * q \<le> 2 ^ 53 * q"
      by (simp only: mult_le_cancel_right_pos)
    moreover have "of_int (2 ^ 52) \<le> y / r"
      using b(3) rpos by (simp add: field_simps)
    then have "2 ^ 52 \<le> roundHalfEven (y / r)"
      by (rule roundHalfEven_ge)
    then have "(2 :: rat) ^ 52 \<le> of_int (roundHalfEven (y / r))"
      by (metis of_int_le_iff of_int_numeral of_int_power)
    with rpos have "2 ^ 52 * r \<le> of_int (roundHalfEven (y / r)) * r"
      by (simp only: mult_le_cancel_right_pos)
    moreover have "2 ^ 53 * q \<le> 2 ^ 52 * r"
      using double by simp
    ultimately show ?thesis
      by (simp add: b64_by_quantum [OF q] b64_by_quantum [OF r])
  next
    case 3
    then have "2 * r \<le> q" unfolding qj rk by (rule pow2_less_double)
    with b assms(2) show ?thesis by simp
  qed
qed

lemma b64_mono: "0 \<le> x \<Longrightarrow> x \<le> y \<Longrightarrow> b64 x \<le> b64 y"
  using b64_mono_pos [of x y] b64_nonneg [of y] by (cases "x = 0") simp_all

text \<open>A number with a significand of at most 53 bits is left as it is.\<close>

lemma b64_representable:
  fixes m :: int and e :: int
  assumes "0 < m" and "m < 2 ^ 53"
  shows "b64 (of_int m * 2 powi e) = of_int m * 2 powi e"
proof -
  define x :: rat where "x = of_int m * 2 powi e"
  have xpos: "0 < x"
    using assms(1) by (simp add: x_def)
  then obtain q where q: "isQuantum x q"
    by (rule b64_quantum_exists)
  then obtain j :: int where qj: "q = 2 powi j"
    by (auto simp: isQuantum_def)
  from q have qpos: "0 < q" and b: "2 ^ 52 * q \<le> x" "x < 2 ^ 53 * q"
    by (simp_all add: isQuantum_pos isQuantum_def)
  have "j \<le> e"
  proof (rule ccontr)
    assume "\<not> j \<le> e"
    then have "e < j" by simp
    then have "(2 :: rat) powi e < 2 powi j"
      by (intro power_int_strict_increasing) simp_all
    then have "2 * (2 :: rat) powi e \<le> q"
      unfolding qj by (rule pow2_less_double)
    moreover have "(of_int m :: rat) < 2 ^ 53"
      using assms(2) by (metis of_int_less_iff of_int_numeral of_int_power)
    then have "x < 2 ^ 53 * 2 powi e"
      by (simp add: x_def)
    ultimately show False
      using b(1) by simp
  qed
  then have "x / q = of_int m * 2 powi (e - j)"
    by (simp add: x_def qj power_int_diff)
  also have "\<dots> = of_int (m * 2 ^ nat (e - j))"
    using \<open>j \<le> e\<close> by (simp add: power_int_nonneg_exp)
  finally have "x / q = of_int (m * 2 ^ nat (e - j))" .
  then have "of_int (roundHalfEven (x / q)) = x / q"
    by (simp only: roundHalfEven_of_int)
  then have "of_int (roundHalfEven (x / q)) * q = x"
    using qpos by simp
  then show ?thesis
    by (simp only: b64_by_quantum [OF q] x_def [symmetric])
qed

text \<open>The result of a rounding is a binary64 number: rounding it again changes nothing.\<close>

lemma b64_idem:
  assumes "0 \<le> x"
  shows "b64 (b64 x) = b64 x"
proof (cases "x = 0")
  case True
  then show ?thesis by simp
next
  case False
  with assms have "0 < x" by simp
  then obtain q where q: "isQuantum x q"
    by (rule b64_quantum_exists)
  then obtain j :: int where qj: "q = 2 powi j"
    by (auto simp: isQuantum_def)
  from q have qpos: "0 < q" and b: "2 ^ 52 * q \<le> x" "x < 2 ^ 53 * q"
    by (simp_all add: isQuantum_pos isQuantum_def)
  define R where "R = roundHalfEven (x / q)"
  have rounded: "b64 x = of_int R * 2 powi j"
    by (simp add: b64_by_quantum [OF q] R_def qj)
  have "of_int (2 ^ 52) \<le> x / q"
    using b(1) qpos by (simp add: field_simps)
  then have lo: "2 ^ 52 \<le> R"
    unfolding R_def by (rule roundHalfEven_ge)
  have "x / q \<le> of_int (2 ^ 53)"
    using b(2) qpos by (simp add: field_simps)
  then have hi: "R \<le> 2 ^ 53"
    unfolding R_def by (rule roundHalfEven_le)
  show ?thesis
  proof (cases "R = 2 ^ 53")
    case True
    have "b64 x = of_int (2 ^ 52) * 2 powi (j + 1)"
      by (simp add: rounded True power_int_add)
    moreover have "b64 (of_int (2 ^ 52) * 2 powi (j + 1)) = of_int (2 ^ 52) * 2 powi (j + 1)"
      by (rule b64_representable) simp_all
    ultimately show ?thesis
      by simp
  next
    case False
    with lo hi have "0 < R" "R < 2 ^ 53"
      by simp_all
    then have "b64 (of_int R * 2 powi j) = of_int R * 2 powi j"
      by (rule b64_representable)
    then show ?thesis
      by (simp add: rounded)
  qed
qed

text \<open>
  Between a positive binary64 number and the next smaller one lies at least the
  fraction \<open>2\<^sup>-\<^sup>5\<^sup>3\<close> of it, so the rounded quotient of two different positive binary64
  numbers is not 1.
\<close>

lemma b64_below:
  assumes "b64 t = t" and "b64 d = d" and "0 < t" and "t < d"
  shows "t \<le> d * (1 - 1 / 2 ^ 53)"
proof -
  from assms have dpos: "0 < d" by simp
  from assms(3) obtain qt where qt: "isQuantum t qt"
    by (rule b64_quantum_exists)
  from dpos obtain qd where qd: "isQuantum d qd"
    by (rule b64_quantum_exists)
  from qt qd obtain j k :: int where qtj: "qt = 2 powi j" and qdk: "qd = 2 powi k"
    by (auto simp: isQuantum_def)
  from qt qd have pos: "0 < qt" "0 < qd"
    by (simp_all add: isQuantum_pos)
  from qt qd have b: "2 ^ 52 * qt \<le> t" "t < 2 ^ 53 * qt" "2 ^ 52 * qd \<le> d" "d < 2 ^ 53 * qd"
    by (simp_all add: isQuantum_def)
  define Rt where "Rt = roundHalfEven (t / qt)"
  define Rd where "Rd = roundHalfEven (d / qd)"
  have t: "t = of_int Rt * qt"
    using b64_by_quantum [OF qt] assms(1) by (simp add: Rt_def)
  have d: "d = of_int Rd * qd"
    using b64_by_quantum [OF qd] assms(2) by (simp add: Rd_def)
  consider "qt = qd" | "qt < qd" | "qd < qt" by linarith
  then show ?thesis
  proof cases
    case 1
    from assms(4) have "of_int Rt * qd < of_int Rd * qd"
      using t d 1 by simp
    with pos(2) have "(of_int Rt :: rat) < of_int Rd"
      by (simp only: mult_less_cancel_right_pos)
    then have "Rt + 1 \<le> Rd"
      by simp
    then have "(of_int Rt :: rat) + 1 \<le> of_int Rd"
      by (metis of_int_1 of_int_add of_int_le_iff)
    with pos(2) have "(of_int Rt + 1) * qd \<le> of_int Rd * qd"
      by (simp only: mult_le_cancel_right_pos)
    then have "t + qd \<le> d"
      using t d 1 by (simp add: algebra_simps)
    with b(4) show ?thesis
      by (simp add: algebra_simps)
  next
    case 2
    then have double: "2 * qt \<le> qd"
      unfolding qtj qdk by (rule pow2_less_double)
    from b(2) have "of_int Rt * qt < 2 ^ 53 * qt"
      using t by simp
    with pos(1) have "(of_int Rt :: rat) < 2 ^ 53"
      by (simp only: mult_less_cancel_right_pos)
    then have "Rt < 2 ^ 53"
      by (metis of_int_less_iff of_int_numeral of_int_power)
    then have "Rt \<le> 2 ^ 53 - 1"
      by simp
    then have "(of_int Rt :: rat) \<le> of_int (2 ^ 53 - 1)"
      by (simp only: of_int_le_iff)
    then have "(of_int Rt :: rat) \<le> 2 ^ 53 - 1"
      by simp
    with pos(1) have "of_int Rt * qt \<le> (2 ^ 53 - 1) * qt"
      by (simp only: mult_le_cancel_right_pos)
    then have "t \<le> (2 ^ 53 - 1) * qt"
      using t by simp
    with double b(3) show ?thesis
      by (simp add: algebra_simps)
  next
    case 3
    then have "2 * qd \<le> qt"
      unfolding qtj qdk by (rule pow2_less_double)
    with b assms(4) show ?thesis
      by simp
  qed
qed

lemma b64_quotient_less_one:
  assumes "b64 t = t" and "b64 d = d" and "0 \<le> t" and "t < d"
  shows "b64 (t / d) < 1"
proof (cases "t = 0")
  case True
  then show ?thesis by simp
next
  case False
  with assms(3) have tpos: "0 < t" by simp
  with assms(4) have dpos: "0 < d" by simp
  from b64_below [OF assms(1,2) tpos assms(4)] dpos have "t / d \<le> 1 - 1 / 2 ^ 53"
    by (simp add: field_simps)
  moreover have "0 \<le> t / d"
    using tpos dpos by simp
  ultimately have "b64 (t / d) \<le> b64 (1 - 1 / 2 ^ 53)"
    by (rule b64_mono [rotated])
  moreover have "b64 (of_int (2 ^ 53 - 1) * 2 powi (- 53)) = of_int (2 ^ 53 - 1) * 2 powi (- 53)"
    by (rule b64_representable) simp_all
  then have "b64 (1 - 1 / 2 ^ 53) = 1 - 1 / 2 ^ 53"
    by (simp add: power_int_minus)
  ultimately show ?thesis
    by simp
qed

text \<open>
  The rounding without the search, for a number whose binade is known, and for the
  binades in which the times of short clips lie.
\<close>

lemma b64_by_quantum_abs:
  assumes "isQuantum \<bar>x\<bar> q"
  shows "b64 x = of_int (roundHalfEven (x / q)) * q"
proof -
  from assms have pos: "0 < \<bar>x\<bar>"
    by (rule isQuantum_arg_pos)
  then have "isQuantum \<bar>x\<bar> (b64_quantum (b64_fuel \<bar>x\<bar>) \<bar>x\<bar> 1)"
    by (rule b64_quantum_correct)
  with assms have "b64_quantum (b64_fuel \<bar>x\<bar>) \<bar>x\<bar> 1 = q"
    by (rule isQuantum_unique [symmetric])
  then show ?thesis
    by (simp add: b64_def Let_def)
qed

lemma b64_binade:
  fixes j :: int
  assumes "2 powi j \<le> \<bar>x\<bar>" and "\<bar>x\<bar> < 2 powi (j + 1)"
  shows "b64 x = of_int (roundHalfEven (x / 2 powi (j - 52))) * 2 powi (j - 52)"
proof -
  have split: "(2 :: rat) powi (n + (j - 52)) = 2 powi n * 2 powi (j - 52)" for n :: int
    by (rule power_int_add) simp
  have "j = 52 + (j - 52)"
    by simp
  then have "(2 :: rat) powi j = 2 powi (52 + (j - 52))"
    by (simp only:)
  then have lo: "(2 :: rat) powi j = 2 ^ 52 * 2 powi (j - 52)"
    by (simp only: split) simp
  have "j + 1 = 53 + (j - 52)"
    by simp
  then have "(2 :: rat) powi (j + 1) = 2 powi (53 + (j - 52))"
    by (simp only:)
  then have hi: "(2 :: rat) powi (j + 1) = 2 ^ 53 * 2 powi (j - 52)"
    by (simp only: split) simp
  from assms have "isQuantum \<bar>x\<bar> (2 powi (j - 52))"
    unfolding isQuantum_def lo hi by blast
  then show ?thesis
    by (rule b64_by_quantum_abs)
qed

lemma b64_binades:
  "1 / 16 \<le> \<bar>x\<bar> \<Longrightarrow> \<bar>x\<bar> < 1 / 8 \<Longrightarrow>
     b64 x = of_int (roundHalfEven (x * 72057594037927936)) / 72057594037927936"
  "1 / 8 \<le> \<bar>x\<bar> \<Longrightarrow> \<bar>x\<bar> < 1 / 4 \<Longrightarrow>
     b64 x = of_int (roundHalfEven (x * 36028797018963968)) / 36028797018963968"
  "1 / 4 \<le> \<bar>x\<bar> \<Longrightarrow> \<bar>x\<bar> < 1 / 2 \<Longrightarrow>
     b64 x = of_int (roundHalfEven (x * 18014398509481984)) / 18014398509481984"
  "1 / 2 \<le> \<bar>x\<bar> \<Longrightarrow> \<bar>x\<bar> < 1 \<Longrightarrow>
     b64 x = of_int (roundHalfEven (x * 9007199254740992)) / 9007199254740992"
  "1 \<le> \<bar>x\<bar> \<Longrightarrow> \<bar>x\<bar> < 2 \<Longrightarrow>
     b64 x = of_int (roundHalfEven (x * 4503599627370496)) / 4503599627370496"
  "2 \<le> \<bar>x\<bar> \<Longrightarrow> \<bar>x\<bar> < 4 \<Longrightarrow>
     b64 x = of_int (roundHalfEven (x * 2251799813685248)) / 2251799813685248"
  using b64_binade [of "- 4" x] b64_binade [of "- 3" x] b64_binade [of "- 2" x]
    b64_binade [of "- 1" x] b64_binade [of 0 x] b64_binade [of 1 x]
  by (simp_all add: power_int_minus)

text \<open>The binary64 values of the two decimal literals of the sampler.\<close>

lemma b64_eight_hundredths: "b64 (8 / 100) = 5764607523034235 / 72057594037927936"
  by (simp add: b64_def b64_fuel_def b64_quantum_numeral roundHalfEven_def Let_def
      floor_rat_numeral_divide floor_rat_one_divide)

lemma b64_one_hundredth: "b64 (1 / 100) = 5764607523034235 / 576460752303423488"
  by (simp add: b64_def b64_fuel_def b64_quantum_numeral roundHalfEven_def Let_def
      floor_rat_numeral_divide floor_rat_one_divide)

lemma b64_one [simp]: "b64 1 = 1"
  using b64_representable [of 1 0] by simp

section \<open>The sampling schedule\<close>

lemma SAMPLE_INTERVAL_SECONDS_value:
  "SAMPLE_INTERVAL_SECONDS = 5764607523034235 / 72057594037927936"
  unfolding SAMPLE_INTERVAL_SECONDS_def by (rule b64_eight_hundredths)

lemma sampleIntervalOf_ge: "SAMPLE_INTERVAL_SECONDS \<le> sampleIntervalOf d"
  by (simp add: sampleIntervalOf_def)

lemma sampleIntervalOf_ge_decimal: "8 / 100 \<le> sampleIntervalOf d"
  using sampleIntervalOf_ge [of d] by (simp add: SAMPLE_INTERVAL_SECONDS_value)

lemma sampleIntervalOf_pos: "0 < sampleIntervalOf d"
  using sampleIntervalOf_ge_decimal [of d] by simp

text \<open>
  The rounded addition of the interval moves the time forward: the interval is at least
  the rounded 320th part of the duration, far more than the spacing of the binary64
  numbers up to the duration.
\<close>

lemma sampleIntervalOf_step:
  assumes "0 \<le> t" and "t \<le> d"
  shows "t < b64 (t + sampleIntervalOf d)"
proof -
  define i where "i = sampleIntervalOf d"
  have ipos: "0 < i"
    by (simp add: i_def sampleIntervalOf_pos)
  with assms(1) have "0 < t + i"
    by simp
  from b64_lower [OF this] have lower: "(t + i) * (1 - 1 / 2 ^ 53) \<le> b64 (t + i)" .
  have "t < (t + i) * (1 - 1 / 2 ^ 53)"
  proof (cases "0 < d")
    case True
    then have "0 < d / 320"
      by simp
    from b64_lower [OF this] have "d / 320 * (1 - 1 / 2 ^ 53) \<le> b64 (d / 320)" .
    also have "\<dots> \<le> i"
      by (simp add: i_def sampleIntervalOf_def MAX_SAMPLES_def)
    finally have "d / 320 * (1 - 1 / 2 ^ 53) \<le> i" .
    with assms True ipos show ?thesis
      by (simp add: algebra_simps)
  next
    case False
    with assms have "t = 0"
      by simp
    with ipos show ?thesis
      by simp
  qed
  with lower show ?thesis
    by (simp add: i_def)
qed

text \<open>
  It moves the time forward by 0.08 seconds at least, up to the rounding of the sum, a
  fraction of less than \<open>2\<^sup>-\<^sup>4\<^sup>4\<close>.
\<close>

lemma sampleIntervalOf_gap:
  assumes "0 \<le> t" and "t \<le> d"
  shows "t + 8 / 100 * (1 - 1 / 2 ^ 44) \<le> b64 (t + sampleIntervalOf d)"
proof -
  define i where "i = sampleIntervalOf d"
  have floor: "8 / 100 \<le> i"
    unfolding i_def by (rule sampleIntervalOf_ge_decimal)
  with assms(1) have "0 < t + i"
    by simp
  from b64_lower [OF this] have lower: "(t + i) * (1 - 1 / 2 ^ 53) \<le> b64 (t + i)" .
  have "t + 8 / 100 * (1 - 1 / 2 ^ 44) \<le> (t + i) * (1 - 1 / 2 ^ 53)"
  proof (cases "0 < d")
    case True
    then have "0 < d / 320"
      by simp
    from b64_lower [OF this] have "d / 320 * (1 - 1 / 2 ^ 53) \<le> b64 (d / 320)" .
    also have "\<dots> \<le> i"
      by (simp add: i_def sampleIntervalOf_def MAX_SAMPLES_def)
    finally have "d / 320 * (1 - 1 / 2 ^ 53) \<le> i" .
    with assms floor show ?thesis
      by (simp add: algebra_simps)
  next
    case False
    with assms have "t = 0"
      by simp
    with floor show ?thesis
      by simp
  qed
  with lower show ?thesis
    by (simp add: i_def)
qed

lemma sampleTimes_Cons:
  "t \<le> d \<and> k \<le> MAX_SAMPLES \<Longrightarrow>
   sampleTimes d i t k = t # sampleTimes d i (b64 (t + i)) (k + 1)"
  by (subst sampleTimes.simps) simp

lemma sampleTimes_Nil:
  "\<not> (t \<le> d \<and> k \<le> MAX_SAMPLES) \<Longrightarrow> sampleTimes d i t k = []"
  by (subst sampleTimes.simps) auto

lemma sampleTimes_length_le:
  "length (sampleTimes d i t k) \<le> Suc MAX_SAMPLES - k"
proof (induction d i t k rule: sampleTimes.induct)
  case (1 d i t k)
  show ?case
  proof (cases "t \<le> d \<and> k \<le> MAX_SAMPLES")
    case True
    with "1.IH" [OF True] sampleTimes_Cons [OF True, of i] show ?thesis
      by (simp add: Suc_diff_le)
  next
    case False
    then show ?thesis
      by (simp add: sampleTimes_Nil)
  qed
qed

lemma sampleTimes_index:
  "j < length (sampleTimes d i t k) \<Longrightarrow> k + j \<le> MAX_SAMPLES"
  using sampleTimes_length_le [of d i t k] by simp

lemma sampleTimes_nth_0:
  "sampleTimes d i t k \<noteq> [] \<Longrightarrow> sampleTimes d i t k ! 0 = t"
  by (cases "t \<le> d \<and> k \<le> MAX_SAMPLES") (simp_all add: sampleTimes_Cons sampleTimes_Nil)

text \<open>Each time of the schedule is the rounded sum of the one before and the interval.\<close>

lemma sampleTimes_nth_Suc:
  "Suc j < length (sampleTimes d i t k) \<Longrightarrow>
   sampleTimes d i t k ! Suc j = b64 (sampleTimes d i t k ! j + i)"
proof (induction d i t k arbitrary: j rule: sampleTimes.induct)
  case (1 d i t k)
  show ?case
  proof (cases "t \<le> d \<and> k \<le> MAX_SAMPLES")
    case True
    note unfold = sampleTimes_Cons [OF True, of i]
    show ?thesis
    proof (cases j)
      case 0
      with "1.prems" unfold have "sampleTimes d i (b64 (t + i)) (k + 1) \<noteq> []"
        by auto
      from sampleTimes_nth_0 [OF this] 0 unfold show ?thesis
        by simp
    next
      case (Suc j')
      with "1.prems" unfold have "Suc j' < length (sampleTimes d i (b64 (t + i)) (k + 1))"
        by simp
      from "1.IH" [OF True this] Suc unfold show ?thesis
        by simp
    qed
  next
    case False
    with "1.prems" show ?thesis
      by (simp add: sampleTimes_Nil)
  qed
qed

lemma sampleTimes_le:
  "x \<in> set (sampleTimes d i t k) \<Longrightarrow> x \<le> d"
proof (induction d i t k rule: sampleTimes.induct)
  case (1 d i t k)
  show ?case
  proof (cases "t \<le> d \<and> k \<le> MAX_SAMPLES")
    case True
    with "1.prems" "1.IH" [OF True] sampleTimes_Cons [OF True, of i] show ?thesis
      by auto
  next
    case False
    with "1.prems" show ?thesis
      by (simp add: sampleTimes_Nil)
  qed
qed

text \<open>The times of the schedule are binary64 numbers.\<close>

lemma sampleTimes_representable:
  "x \<in> set (sampleTimes d i t k) \<Longrightarrow> b64 t = t \<Longrightarrow> 0 \<le> t \<Longrightarrow> 0 \<le> i \<Longrightarrow> b64 x = x"
proof (induction d i t k rule: sampleTimes.induct)
  case (1 d i t k)
  show ?case
  proof (cases "t \<le> d \<and> k \<le> MAX_SAMPLES")
    case True
    from "1.prems"(3,4) have sum: "0 \<le> t + i"
      by simp
    from "1.prems"(1) sampleTimes_Cons [OF True, of i]
    consider "x = t" | "x \<in> set (sampleTimes d i (b64 (t + i)) (k + 1))"
      by auto
    then show ?thesis
    proof cases
      case 1
      with "1.prems"(2) show ?thesis by simp
    next
      case 2
      from "1.IH" [OF True 2 b64_idem [OF sum] b64_nonneg [OF sum] "1.prems"(4)]
      show ?thesis .
    qed
  next
    case False
    with "1.prems" show ?thesis
      by (simp add: sampleTimes_Nil)
  qed
qed

text \<open>The schedule of a clip increases strictly and starts at zero.\<close>

lemma sampleTimes_sorted:
  assumes "0 \<le> t"
  shows "sorted_wrt (<) (sampleTimes d (sampleIntervalOf d) t k) \<and>
    (\<forall>x\<in>set (sampleTimes d (sampleIntervalOf d) t k). t \<le> x)"
  using assms
proof (induction d "sampleIntervalOf d" t k rule: sampleTimes.induct)
  case (1 d t k)
  show ?case
  proof (cases "t \<le> d \<and> k \<le> MAX_SAMPLES")
    case True
    from sampleIntervalOf_step [OF "1.prems"] True
    have step: "t < b64 (t + sampleIntervalOf d)"
      by simp
    with "1.prems" have "0 \<le> b64 (t + sampleIntervalOf d)"
      by simp
    from "1.hyps" [OF True this] step sampleTimes_Cons [OF True, of "sampleIntervalOf d"]
    show ?thesis
      by fastforce
  next
    case False
    then show ?thesis
      by (simp add: sampleTimes_Nil)
  qed
qed

lemma schedule_nonempty:
  "0 \<le> d \<Longrightarrow> sampleTimes d i 0 0 \<noteq> []"
  by (simp add: sampleTimes_Cons)

lemma schedule_bounds:
  assumes "x \<in> set (sampleTimes d (sampleIntervalOf d) 0 0)"
  shows "0 \<le> x \<and> x \<le> d \<and> b64 x = x"
proof -
  from sampleTimes_sorted [of 0 d 0] assms have "0 \<le> x"
    by simp
  moreover from assms have "x \<le> d"
    by (rule sampleTimes_le)
  moreover from assms sampleIntervalOf_pos [of d] have "b64 x = x"
    by (intro sampleTimes_representable [of x d "sampleIntervalOf d" 0 0]) simp_all
  ultimately show ?thesis
    by simp
qed

subsection \<open>The schedules of particular clips\<close>

text \<open>Up to 25.6 seconds the interval is the floor interval.\<close>

lemma sampleIntervalOf_floor:
  assumes "0 \<le> d" and "d \<le> 320 * SAMPLE_INTERVAL_SECONDS"
  shows "sampleIntervalOf d = SAMPLE_INTERVAL_SECONDS"
proof -
  from assms have "0 \<le> d / 320" and "d / 320 \<le> SAMPLE_INTERVAL_SECONDS"
    by simp_all
  then have "b64 (d / 320) \<le> b64 SAMPLE_INTERVAL_SECONDS"
    by (rule b64_mono)
  also have "\<dots> = SAMPLE_INTERVAL_SECONDS"
    unfolding SAMPLE_INTERVAL_SECONDS_def by (rule b64_idem) simp
  finally show ?thesis
    by (simp add: sampleIntervalOf_def MAX_SAMPLES_def)
qed

lemma sampleIntervalOf_short:
  "sampleIntervalOf (1 / 8) = 5764607523034235 / 72057594037927936"
  "sampleIntervalOf 1 = 5764607523034235 / 72057594037927936"
  "sampleIntervalOf 2 = 5764607523034235 / 72057594037927936"
  using sampleIntervalOf_floor [of "1 / 8"] sampleIntervalOf_floor [of 1]
    sampleIntervalOf_floor [of 2]
  by (simp_all add: SAMPLE_INTERVAL_SECONDS_value)

text \<open>
  A clip of one second is sampled 13 times, the last time at
  \<open>0.9599999999999999\<close>; a clip of two seconds 25 times, the last time at
  \<open>1.9200000000000006\<close>: the 26th sum is \<open>2.0000000000000004\<close>, just above the
  duration.
\<close>

lemma schedule_1:
  "length (sampleTimes 1 (sampleIntervalOf 1) 0 0) = 13 \<and>
   last (sampleTimes 1 (sampleIntervalOf 1) 0 0) = 8646911284551351 / 9007199254740992"
  unfolding sampleIntervalOf_short
  by (simp add: sampleTimes.simps MAX_SAMPLES_def b64_binades roundHalfEven_def Let_def
      floor_rat_numeral_divide)

lemma schedule_2:
  "length (sampleTimes 2 (sampleIntervalOf 2) 0 0) = 25 \<and>
   last (sampleTimes 2 (sampleIntervalOf 2) 0 0) = 8646911284551355 / 4503599627370496"
  unfolding sampleIntervalOf_short
  by (simp add: sampleTimes.simps MAX_SAMPLES_def b64_binades roundHalfEven_def Let_def
      floor_rat_numeral_divide)

lemma twenty_sixth_time:
  "b64 (8646911284551355 / 4503599627370496 + sampleIntervalOf 2) =
     4503599627370497 / 2251799813685248 \<and>
   (2 :: rat) < 4503599627370497 / 2251799813685248"
  unfolding sampleIntervalOf_short
  by (simp add: b64_binades roundHalfEven_def Let_def floor_rat_numeral_divide)

text \<open>
  For a clip of forty seconds the interval is an eighth of a second, and every multiple
  of it is a binary64 number: the schedule runs through all 321 indices and ends on the
  duration.
\<close>

lemma sampleIntervalOf_40: "sampleIntervalOf 40 = 1 / 8"
  by (simp add: sampleIntervalOf_def SAMPLE_INTERVAL_SECONDS_value MAX_SAMPLES_def
      b64_binades roundHalfEven_def Let_def floor_rat_numeral_divide)

lemma b64_eighths: "b64 (of_nat k / 8 + 1 / 8) = of_nat (Suc k) / 8" if "k \<le> 320"
proof -
  have eighths: "of_int (int (Suc k)) * 2 powi (- 3) = (of_nat k / 8 + 1 / 8 :: rat)"
    by (simp add: power_int_minus field_simps)
  have "b64 (of_int (int (Suc k)) * 2 powi (- 3)) = of_int (int (Suc k)) * 2 powi (- 3)"
    using that by (intro b64_representable) simp_all
  then have "b64 (of_nat k / 8 + 1 / 8) = of_nat k / 8 + 1 / 8"
    by (simp only: eighths)
  also have "\<dots> = of_nat (Suc k) / 8"
    by (simp add: field_simps)
  finally show ?thesis .
qed

lemma sampleTimes_eighths:
  "n + k = 321 \<Longrightarrow>
   sampleTimes 40 (1 / 8) (of_nat k / 8) k = map (\<lambda>j. of_nat j / 8) [k..<321]"
proof (induction n arbitrary: k)
  case 0
  then show ?case
    by (simp add: sampleTimes_Nil MAX_SAMPLES_def)
next
  case (Suc n)
  then have k: "k \<le> 320"
    by simp
  then have "(of_nat k :: rat) \<le> 320"
    by simp
  with k have guard: "of_nat k / 8 \<le> (40 :: rat) \<and> k \<le> MAX_SAMPLES"
    by (simp add: MAX_SAMPLES_def)
  from Suc.prems have "n + Suc k = 321"
    by simp
  from Suc.IH [OF this] have
    "sampleTimes 40 (1 / 8) (of_nat (Suc k) / 8) (Suc k) = map (\<lambda>j. of_nat j / 8) [Suc k..<321]" .
  moreover from k have "[k..<321] = k # [Suc k..<321]"
    by (simp add: upt_conv_Cons)
  ultimately show ?case
    by (simp add: sampleTimes_Cons [OF guard] b64_eighths [OF k] del: of_nat_Suc)
qed

lemma schedule_40:
  "sampleTimes 40 (sampleIntervalOf 40) 0 0 = map (\<lambda>j. of_nat j / 8) [0..<321]"
  using sampleTimes_eighths [of 321 0] by (simp add: sampleIntervalOf_40)

lemma schedule_length_40: "length (sampleTimes 40 (sampleIntervalOf 40) 0 0) = 321"
  by (simp only: schedule_40 length_map length_upt)

lemma schedule_last_40: "last (sampleTimes 40 (sampleIntervalOf 40) 0 0) = 40"
proof -
  have "[0..<321] = [0..<320] @ [320]"
    using upt_Suc_append [of 0 320] by simp
  then have "last (map (\<lambda>j. of_nat j / 8 :: rat) [0..<321]) = of_nat 320 / 8"
    by (simp only: map_append last_snoc list.map)
  then show ?thesis
    by (simp only: schedule_40)
qed

section \<open>Properties of the ball localisation\<close>

lemma cv_new_record:
  "cv_new \<lparr>nextHandle = n, live = L\<rparr> = (n, \<lparr>nextHandle = Suc n, live = L @ [n]\<rparr>)"
  by (simp add: cv_new_def)

lemma cv_delete_record:
  "cv_delete h \<lparr>nextHandle = n, live = L\<rparr> = \<lparr>nextHandle = n, live = removeAll h L\<rparr>"
  by (simp add: cv_delete_def)

lemma Max_insert_max:
  fixes a b :: rat
  shows "finite S \<Longrightarrow> Max (insert (max a b) S) = Max (insert a (insert b S))"
  by (cases "S = {}") (simp_all add: max.assoc)

lemma scanContours_best:
  "scanContours cs i bi bs H = ((bi', bs'), H') \<Longrightarrow>
   bs' = Max (insert bs (combinedScore ` {c \<in> set cs. qualifies c})) \<and>
   (bi' = bi \<and> bs' = bs \<or> i \<le> bi' \<and> bi' < i + int (length cs) \<and> bs < bs')"
proof (induction cs arbitrary: i bi bs H)
  case Nil
  then show ?case by simp
next
  case (Cons c cs)
  obtain h H1 where new: "cv_new H = (h, H1)"
    by (cases "cv_new H")
  show ?case
  proof (cases "qualifies c")
    case False
    then have skip: "contourArea c < 15 \<or> arcLength c = 0"
      by (auto simp: qualifies_def)
    with Cons.prems new have "scanContours cs (i + 1) bi bs H1 = ((bi', bs'), H')"
      by (cases "contourArea c < 15") (simp_all add: Let_def)
    moreover have "{c' \<in> set (c # cs). qualifies c'} = {c \<in> set cs. qualifies c}"
      using False by auto
    ultimately show ?thesis
      using Cons.IH [of "i + 1" bi bs H1] by auto
  next
    case True
    define score where "score = combinedScore c"
    define bs1 where "bs1 = (if score > bs then score else bs)"
    define bi1 where "bi1 = (if score > bs then i else bi)"
    from True have go: "\<not> contourArea c < 15" "arcLength c \<noteq> 0"
      by (auto simp: qualifies_def)
    with Cons.prems new have "scanContours cs (i + 1) bi1 bs1 (cv_delete h H1) = ((bi', bs'), H')"
      by (simp add: Let_def score_def bs1_def bi1_def combinedScore_def circularity_def
          split: if_splits)
    from Cons.IH [OF this, THEN conjunct1] Cons.IH [OF this, THEN conjunct2]
    have max: "bs' = Max (insert bs1 (combinedScore ` {c \<in> set cs. qualifies c}))"
      and idx: "bi' = bi1 \<and> bs' = bs1 \<or> i + 1 \<le> bi' \<and> bi' < i + 1 + int (length cs) \<and> bs1 < bs'"
      by blast+
    have fin: "finite (combinedScore ` {c \<in> set cs. qualifies c})"
      by simp
    have set_eq: "{c' \<in> set (c # cs). qualifies c'} = insert c {c \<in> set cs. qualifies c}"
      using True by auto
    have "bs1 = max bs score"
      by (simp add: bs1_def max_def)
    then have "Max (insert bs1 (combinedScore ` {c \<in> set cs. qualifies c})) =
        Max (insert bs (insert score (combinedScore ` {c \<in> set cs. qualifies c})))"
      using Max_insert_max [OF fin] by simp
    with max set_eq have 1: "bs' = Max (insert bs (combinedScore ` {c' \<in> set (c # cs). qualifies c'}))"
      by (simp add: score_def)
    have "bs \<le> bs1"
      by (simp add: bs1_def)
    with idx have 2: "bi' = bi \<and> bs' = bs \<or> i \<le> bi' \<and> bi' < i + int (length (c # cs)) \<and> bs < bs'"
      by (auto simp: bs1_def bi1_def split: if_splits)
    from 1 2 show ?thesis
      by blast
  qed
qed

lemma detectBall_cases:
  assumes "detectBall f H = (out, H')"
  shows "out = Inr None \<or> out = Inl NonError \<or>
    (\<exists>H1 H2 tw th.
       out = Inr (fst (locateBest f tw th
                        (fst (fst (scanContours (contours f) 0 (- 1) 0 H1)))
                        (snd (fst (scanContours (contours f) 0 (- 1) 0 H1))) H2)))"
proof (cases "mat_empty f")
  case True
  with assms show ?thesis
    by (auto simp: detectBall_def split_def Let_def)
next
  case False
  have "fst (detectBall f H) = Inl NonError \<or>
    (\<exists>H1 H2 tw th.
       fst (detectBall f H) = Inr (fst (locateBest f tw th
                        (fst (fst (scanContours (contours f) 0 (- 1) 0 H1)))
                        (snd (fst (scanContours (contours f) 0 (- 1) 0 H1))) H2)))"
    using False
    unfolding detectBall_def split_def Let_def
    apply (simp only: if_False)
    apply (split if_split)
    apply (intro conjI impI)
     apply simp
    apply (rule disjI2)
    apply (simp only: fst_conv)
    apply (intro exI)
    apply (rule refl)
    done
  with assms show ?thesis
    by simp
qed

lemma locateBest_Some:
  assumes "fst (locateBest f tw th bi bs H) = Some c"
  shows "0 \<le> bi \<and> cand_confidence c = min 1 (bs / 1500)"
  using assms
  by (auto simp: locateBest_def split_def Let_def split: if_splits)

lemma detectBall_bestScore:
  assumes "detectBall f H = (Inr (Some c), H')"
  shows "{q \<in> set (contours f). qualifies q} \<noteq> {} \<and>
    0 < Max (combinedScore ` {q \<in> set (contours f). qualifies q}) \<and>
    cand_confidence c =
      min 1 (Max (combinedScore ` {q \<in> set (contours f). qualifies q}) / 1500)"
proof -
  let ?S = "combinedScore ` {q \<in> set (contours f). qualifies q}"
  from detectBall_cases [OF assms] obtain H1 H2 tw th where
    c: "Some c = fst (locateBest f tw th
                        (fst (fst (scanContours (contours f) 0 (- 1) 0 H1)))
                        (snd (fst (scanContours (contours f) 0 (- 1) 0 H1))) H2)"
    by auto
  obtain bi bs H3 where scan: "scanContours (contours f) 0 (- 1) 0 H1 = ((bi, bs), H3)"
    by (metis prod.collapse)
  from c scan have "fst (locateBest f tw th bi bs H2) = Some c"
    by simp
  from locateBest_Some [OF this] have bi: "0 \<le> bi" and conf: "cand_confidence c = min 1 (bs / 1500)"
    by simp_all
  from scanContours_best [OF scan] bi have max: "bs = Max (insert 0 ?S)" and pos: "0 < bs"
    by auto
  have fin: "finite ?S"
    by simp
  have ne: "?S \<noteq> {}"
  proof
    assume "?S = {}"
    with max pos show False by simp
  qed
  with fin max have "bs = max 0 (Max ?S)"
    by simp
  with pos have "bs = Max ?S"
    by (simp add: max_def split: if_splits)
  with ne pos conf show ?thesis
    by auto
qed

lemma fst_detectBall_confidence:
  assumes "fst (detectBall f H) = Inr (Some c)"
  shows "0 \<le> cand_confidence c \<and> cand_confidence c \<le> 1"
proof -
  obtain H' where "detectBall f H = (Inr (Some c), H')"
    using assms by (cases "detectBall f H") simp
  from detectBall_bestScore [OF this]
  obtain m :: rat where "0 < m" and "cand_confidence c = min 1 (m / 1500)"
    by blast
  then show ?thesis
    by (simp add: min_def)
qed

lemma Math_round_pos_iff: "0 < Math_round q \<longleftrightarrow> 1 / 2 \<le> q"
proof -
  have "0 < Math_round q \<longleftrightarrow> 1 \<le> \<lfloor>q + 1 / 2\<rfloor>"
    by (simp add: Math_round_def)
  also have "\<dots> \<longleftrightarrow> 1 \<le> q + 1 / 2"
    by (simp only: le_floor_iff of_int_1)
  finally show ?thesis
    by auto
qed

lemma targetWidth_pos:
  "\<not> mat_empty f \<Longrightarrow> 0 < Math_round (of_nat (mat_cols f) * targetScale f)"
  by (auto simp: targetScale_def Math_round_pos_iff mat_empty_def downscaleWidth_def)

lemma targetHeight_pos_iff:
  assumes "\<not> mat_empty f"
  shows "0 < Math_round (of_nat (mat_rows f) * targetScale f) \<longleftrightarrow>
    \<not> (960 * mat_rows f < mat_cols f)"
proof (cases "mat_cols f > downscaleWidth")
  case False
  with assms show ?thesis
    by (auto simp: targetScale_def Math_round_pos_iff mat_empty_def downscaleWidth_def)
next
  case True
  then have c: "0 < (of_nat (mat_cols f) :: rat)"
    by (simp add: downscaleWidth_def)
  have "0 < Math_round (of_nat (mat_rows f) * targetScale f) \<longleftrightarrow>
      1 / 2 \<le> of_nat (mat_rows f) * (480 / of_nat (mat_cols f) :: rat)"
    using True by (simp add: targetScale_def Math_round_pos_iff downscaleWidth_def)
  also have "\<dots> \<longleftrightarrow> (of_nat (mat_cols f) :: rat) \<le> of_nat (960 * mat_rows f)"
    using c by (simp add: field_simps)
  also have "\<dots> \<longleftrightarrow> mat_cols f \<le> 960 * mat_rows f"
    by (simp only: of_nat_le_iff)
  finally show ?thesis
    by auto
qed

lemma fst_detectBall_throws_iff:
  "fst (detectBall f H) = Inl e \<longleftrightarrow>
   e = NonError \<and> \<not> mat_empty f \<and> 960 * mat_rows f < mat_cols f"
proof (cases "mat_empty f")
  case True
  then show ?thesis
    by (simp add: detectBall_def split_def Let_def)
next
  case False
  note w = targetWidth_pos [OF False, unfolded targetScale_def]
  note h = targetHeight_pos_iff [OF False, unfolded targetScale_def]
  show ?thesis
  proof (cases "960 * mat_rows f < mat_cols f")
    case True
    with h have "Math_round (of_nat (mat_rows f) *
        (if mat_cols f > downscaleWidth then of_nat downscaleWidth / of_nat (mat_cols f) else 1)) \<le> 0"
      by simp
    with False True show ?thesis
      unfolding detectBall_def split_def Let_def
      by (simp only: if_False if_True simp_thms fst_conv) auto
  next
    case no: False
    with h have "\<not> Math_round (of_nat (mat_rows f) *
        (if mat_cols f > downscaleWidth then of_nat downscaleWidth / of_nat (mat_cols f) else 1)) \<le> 0"
      by simp
    moreover from w have "\<not> Math_round (of_nat (mat_cols f) *
        (if mat_cols f > downscaleWidth then of_nat downscaleWidth / of_nat (mat_cols f) else 1)) \<le> 0"
      by simp
    ultimately show ?thesis
      using False no
      unfolding detectBall_def split_def Let_def
      by (simp only: if_False if_True simp_thms fst_conv) simp
  qed
qed

lemma detectBall_no_contours:
  assumes "contours f = []"
  shows "fst (detectBall f H) = Inr None \<or> fst (detectBall f H) = Inl NonError"
proof -
  obtain out H' where run: "detectBall f H = (out, H')"
    by (cases "detectBall f H")
  from detectBall_cases [OF run] assms have "out = Inr None \<or> out = Inl NonError"
    by (auto simp: locateBest_def)
  with run show ?thesis
    by simp
qed

section \<open>Properties of the sampling loop\<close>

lemma sampleLoop_stop:
  "\<not> (t \<le> d \<and> k \<le> MAX_SAMPLES) \<Longrightarrow> sampleLoop w h d i v t k ds rep = (Inr ds, rep)"
  by (subst sampleLoop.simps) auto

lemma sampleLoop_seek_fails:
  "t \<le> d \<and> k \<le> MAX_SAMPLES \<Longrightarrow> seekVideo v t = Inl e \<Longrightarrow>
   sampleLoop w h d i v t k ds rep = (Inl e, rep)"
  by (subst sampleLoop.simps) simp

lemma sampleLoop_vision_fails:
  "t \<le> d \<and> k \<le> MAX_SAMPLES \<Longrightarrow> seekVideo v t = Inr v' \<Longrightarrow>
   fst (detectBall (drawImage w h v') emptyHeap) = Inl e \<Longrightarrow>
   sampleLoop w h d i v t k ds rep = (Inl e, rep)"
  by (subst sampleLoop.simps) simp

lemma sampleLoop_step:
  "t \<le> d \<and> k \<le> MAX_SAMPLES \<Longrightarrow> seekVideo v t = Inr v' \<Longrightarrow>
   fst (detectBall (drawImage w h v') emptyHeap) = Inr detection \<Longrightarrow>
   sampleLoop w h d i v t k ds rep =
     sampleLoop w h d i v' (b64 (t + i)) (k + 1)
       (case detection of
          None \<Rightarrow> ds
        | Some c \<Rightarrow>
            ds @ [\<lparr>dp_time = t, dp_x = cand_x c, dp_y = cand_y c,
                   dp_normX = of_int (cand_x c) / of_nat w,
                   dp_normY = of_int (cand_y c) / of_nat h,
                   dp_confidence = cand_confidence c\<rparr>])
       (rep @ [progressValue t d])"
  by (subst sampleLoop.simps) simp

lemma sampleLoop_reported:
  "sampleLoop w h d i v t k ds rep = (out, rep') \<Longrightarrow>
   \<exists>n \<le> length (sampleTimes d i t k).
     rep' = rep @ map (\<lambda>x. progressValue x d) (take n (sampleTimes d i t k)) \<and>
     (\<forall>dets. out = Inr dets \<longrightarrow> n = length (sampleTimes d i t k)) \<and>
     (\<forall>e. out = Inl e \<longrightarrow> n < length (sampleTimes d i t k))"
proof (induction w h d i v t k ds rep rule: sampleLoop.induct)
  case (1 w h d i v t k ds rep)
  show ?case
  proof (cases "t \<le> d \<and> k \<le> MAX_SAMPLES")
    case False
    with "1.prems" show ?thesis
      by (auto simp: sampleLoop_stop sampleTimes_Nil)
  next
    case True
    note times = sampleTimes_Cons [OF True, of i]
    show ?thesis
    proof (cases "seekVideo v t")
      case (Inl e)
      with "1.prems" True have "rep' = rep" "out = Inl e"
        by (simp_all add: sampleLoop_seek_fails)
      then show ?thesis
        using times by (intro exI [of _ 0]) simp
    next
      case (Inr v')
      show ?thesis
      proof (cases "fst (detectBall (drawImage w h v') emptyHeap)")
        case (Inl e)
        with "1.prems" True Inr have "rep' = rep" "out = Inl e"
          by (simp_all add: sampleLoop_vision_fails)
        then show ?thesis
          using times by (intro exI [of _ 0]) simp
      next
        case det: (Inr detection)
        from "1.prems" have "sampleLoop w h d i v' (b64 (t + i)) (k + 1)
            (case detection of
               None \<Rightarrow> ds
             | Some c \<Rightarrow>
                 ds @ [\<lparr>dp_time = t, dp_x = cand_x c, dp_y = cand_y c,
                        dp_normX = of_int (cand_x c) / of_nat w,
                        dp_normY = of_int (cand_y c) / of_nat h,
                        dp_confidence = cand_confidence c\<rparr>])
            (rep @ [progressValue t d]) = (out, rep')"
          by (simp add: sampleLoop_step [OF True Inr det])
        from "1.IH" [OF True Inr det this]
        obtain n where n: "n \<le> length (sampleTimes d i (b64 (t + i)) (k + 1))"
          and rep': "rep' = (rep @ [progressValue t d]) @
              map (\<lambda>x. progressValue x d) (take n (sampleTimes d i (b64 (t + i)) (k + 1)))"
          and full: "\<forall>dets. out = Inr dets \<longrightarrow> n = length (sampleTimes d i (b64 (t + i)) (k + 1))"
          and part: "\<forall>e. out = Inl e \<longrightarrow> n < length (sampleTimes d i (b64 (t + i)) (k + 1))"
          by blast
        show ?thesis
          using n rep' full part times by (intro exI [of _ "Suc n"]) simp
      qed
    qed
  qed
qed

lemma sampleLoop_detections:
  assumes "sampleLoop w h d i v t k ds rep = (Inr dets, rep')"
    and "\<forall>x. 0 \<le> x \<and> x \<le> d \<longrightarrow> x < b64 (x + i)"
    and "0 \<le> t"
    and "sorted_wrt (\<lambda>a b. b64 (a + i) \<le> b) (map dp_time ds)"
    and "\<forall>p\<in>set ds. 0 \<le> dp_time p \<and> dp_time p \<le> d \<and> b64 (dp_time p + i) \<le> t"
    and "\<forall>p\<in>set ds. dp_normX p = of_int (dp_x p) / of_nat w \<and>
           dp_normY p = of_int (dp_y p) / of_nat h \<and>
           0 \<le> dp_confidence p \<and> dp_confidence p \<le> 1"
  shows "sorted_wrt (\<lambda>a b. b64 (a + i) \<le> b) (map dp_time dets) \<and>
    (\<forall>p\<in>set dets. 0 \<le> dp_time p \<and> dp_time p \<le> d) \<and>
    (\<forall>p\<in>set dets. dp_normX p = of_int (dp_x p) / of_nat w \<and>
           dp_normY p = of_int (dp_y p) / of_nat h \<and>
           0 \<le> dp_confidence p \<and> dp_confidence p \<le> 1) \<and>
    length dets \<le> length ds + length (sampleTimes d i t k)"
  using assms
proof (induction w h d i v t k ds rep rule: sampleLoop.induct)
  case (1 w h d i v t k ds rep)
  show ?case
  proof (cases "t \<le> d \<and> k \<le> MAX_SAMPLES")
    case False
    with "1.prems" show ?thesis
      by (simp add: sampleLoop_stop)
  next
    case True
    note times = sampleTimes_Cons [OF True, of i]
    from "1.prems"(2,3) True have forward: "t < b64 (t + i)"
      by simp
    show ?thesis
    proof (cases "seekVideo v t")
      case (Inl e)
      with "1.prems"(1) True show ?thesis
        by (simp add: sampleLoop_seek_fails)
    next
      case (Inr v')
      show ?thesis
      proof (cases "fst (detectBall (drawImage w h v') emptyHeap)")
        case (Inl e)
        with "1.prems"(1) True Inr show ?thesis
          by (simp add: sampleLoop_vision_fails)
      next
        case det: (Inr detection)
        define ds' where "ds' =
            (case detection of
               None \<Rightarrow> ds
             | Some c \<Rightarrow>
                 ds @ [\<lparr>dp_time = t, dp_x = cand_x c, dp_y = cand_y c,
                        dp_normX = of_int (cand_x c) / of_nat w,
                        dp_normY = of_int (cand_y c) / of_nat h,
                        dp_confidence = cand_confidence c\<rparr>])"
        from "1.prems"(1) have run: "sampleLoop w h d i v' (b64 (t + i)) (k + 1) ds'
            (rep @ [progressValue t d]) = (Inr dets, rep')"
          by (simp add: sampleLoop_step [OF True Inr det] ds'_def)
        have next_time: "0 \<le> b64 (t + i)"
          using forward "1.prems"(3) by simp
        have sorted': "sorted_wrt (\<lambda>a b. b64 (a + i) \<le> b) (map dp_time ds')"
          using "1.prems"(4,5) by (auto simp: ds'_def sorted_wrt_append split: option.splits)
        have before': "\<forall>p\<in>set ds'. 0 \<le> dp_time p \<and> dp_time p \<le> d \<and>
            b64 (dp_time p + i) \<le> b64 (t + i)"
        proof
          fix p
          assume "p \<in> set ds'"
          then consider "p \<in> set ds" | "dp_time p = t"
            by (auto simp: ds'_def split: option.splits)
          then show "0 \<le> dp_time p \<and> dp_time p \<le> d \<and> b64 (dp_time p + i) \<le> b64 (t + i)"
          proof cases
            case 1
            with "1.prems"(5) forward show ?thesis
              by fastforce
          next
            case 2
            with "1.prems"(3) True show ?thesis
              by simp
          qed
        qed
        have good': "\<forall>p\<in>set ds'. dp_normX p = of_int (dp_x p) / of_nat w \<and>
           dp_normY p = of_int (dp_y p) / of_nat h \<and>
           0 \<le> dp_confidence p \<and> dp_confidence p \<le> 1"
        proof (cases detection)
          case None
          with "1.prems"(6) show ?thesis
            by (simp add: ds'_def)
        next
          case (Some c)
          with det have "0 \<le> cand_confidence c \<and> cand_confidence c \<le> 1"
            by (intro fst_detectBall_confidence) simp
          with Some "1.prems"(6) show ?thesis
            by (auto simp: ds'_def)
        qed
        have len': "length ds' \<le> Suc (length ds)"
          by (simp add: ds'_def split: option.splits)
        from "1.IH" [OF True Inr det run [unfolded ds'_def] "1.prems"(2) next_time
            sorted' [unfolded ds'_def] before' [unfolded ds'_def] good' [unfolded ds'_def]]
          len' times
        show ?thesis
          by (simp add: ds'_def)
      qed
    qed
  qed
qed

lemma sampleLoop_errors:
  "sampleLoop w h d i v t k ds rep = (Inl e, rep') \<Longrightarrow>
   e = Error ''Failed to seek video frame.'' \<or> e = NonError"
proof (induction w h d i v t k ds rep rule: sampleLoop.induct)
  case (1 w h d i v t k ds rep)
  show ?case
  proof (cases "t \<le> d \<and> k \<le> MAX_SAMPLES")
    case False
    with "1.prems" show ?thesis
      by (simp add: sampleLoop_stop)
  next
    case True
    show ?thesis
    proof (cases "seekVideo v t")
      case (Inl e')
      with "1.prems" True have "e = e'"
        by (simp add: sampleLoop_seek_fails)
      with Inl show ?thesis
        by (auto simp: seekVideo_def Let_def split: if_splits)
    next
      case (Inr v')
      show ?thesis
      proof (cases "fst (detectBall (drawImage w h v') emptyHeap)")
        case (Inl e')
        with "1.prems" True Inr have "e = e'"
          by (simp add: sampleLoop_vision_fails)
        moreover obtain H' where "detectBall (drawImage w h v') emptyHeap = (Inl e', H')"
          using Inl by (cases "detectBall (drawImage w h v') emptyHeap") simp
        from detectBall_cases [OF this] have "e' = NonError"
          by auto
        ultimately show ?thesis
          by simp
      next
        case det: (Inr detection)
        from "1.prems" show ?thesis
          by (intro "1.IH" [OF True Inr det]) (simp add: sampleLoop_step [OF True Inr det])
      qed
    qed
  qed
qed

lemma seekVideo_Inr:
  "seekVideo v t = Inr v' \<Longrightarrow> seekFails v' = seekFails v \<and> contoursAt v' = contoursAt v"
  by (auto simp: seekVideo_def Let_def split: if_splits)

lemma seekVideo_succeeds:
  "\<forall>x. \<not> seekFails v x \<Longrightarrow> \<exists>v'. seekVideo v t = Inr v'"
  by (simp add: seekVideo_def Let_def)

lemma sampleLoop_completes:
  assumes "\<forall>x. \<not> seekFails v x" and "\<not> 960 * h < w"
  shows "\<exists>dets. fst (sampleLoop w h d i v t k ds rep) = Inr dets"
  using assms
proof (induction w h d i v t k ds rep rule: sampleLoop.induct)
  case (1 w h d i v t k ds rep)
  show ?case
  proof (cases "t \<le> d \<and> k \<le> MAX_SAMPLES")
    case False
    then show ?thesis
      by (simp add: sampleLoop_stop)
  next
    case True
    from seekVideo_succeeds [OF "1.prems"(1)] obtain v' where seek: "seekVideo v t = Inr v'"
      by blast
    from seekVideo_Inr [OF seek] "1.prems"(1) have v': "\<forall>x. \<not> seekFails v' x"
      by simp
    from "1.prems"(2) obtain detection
      where det: "fst (detectBall (drawImage w h v') emptyHeap) = Inr detection"
      by (cases "fst (detectBall (drawImage w h v') emptyHeap)")
        (auto simp: fst_detectBall_throws_iff drawImage_def)
    from "1.IH" [OF True seek det v' "1.prems"(2)] show ?thesis
      by (simp add: sampleLoop_step [OF True seek det])
  qed
qed

lemma sampleLoop_blank:
  assumes "\<forall>x. \<not> seekFails v x" and "\<not> 960 * h < w" and "\<forall>x. contoursAt v x = []"
  shows "fst (sampleLoop w h d i v t k ds rep) = Inr ds"
  using assms
proof (induction w h d i v t k ds rep rule: sampleLoop.induct)
  case (1 w h d i v t k ds rep)
  show ?case
  proof (cases "t \<le> d \<and> k \<le> MAX_SAMPLES")
    case False
    then show ?thesis
      by (simp add: sampleLoop_stop)
  next
    case True
    from seekVideo_succeeds [OF "1.prems"(1)] obtain v' where seek: "seekVideo v t = Inr v'"
      by blast
    from seekVideo_Inr [OF seek] "1.prems"(1,3)
    have v': "\<forall>x. \<not> seekFails v' x" "\<forall>x. contoursAt v' x = []"
      by simp_all
    then have "contours (drawImage w h v') = []"
      by (simp add: drawImage_def)
    from detectBall_no_contours [OF this, of emptyHeap] "1.prems"(2)
    have det: "fst (detectBall (drawImage w h v') emptyHeap) = Inr None"
      by (auto simp: fst_detectBall_throws_iff drawImage_def)
    from "1.IH" [OF True seek det v'(1) "1.prems"(2) v'(2)] show ?thesis
      by (simp add: sampleLoop_step [OF True seek det])
  qed
qed

section \<open>Properties of the analysis run\<close>

lemma fold_setProgress:
  "fold (\<lambda>value s. s\<lparr>progress := value\<rparr>) reported s =
     s\<lparr>progress := last (progress s # reported)\<rparr>"
  by (induction reported arbitrary: s) simp_all

lemma extractDetections_errors:
  assumes "extractDetections ctx video = (Inl e, reported)"
  shows "e = Error ''Video dimensions unavailable. Please choose a different file.'' \<and>
           (videoWidth video = 0 \<or> videoHeight video = 0) \<and> reported = [] \<or>
         e = Error ''Unable to create analysis surface.'' \<and>
           \<not> (videoWidth video = 0 \<or> videoHeight video = 0) \<and> \<not> ctx \<and> reported = [] \<or>
         (e = Error ''Failed to seek video frame.'' \<or> e = NonError) \<and>
           \<not> (videoWidth video = 0 \<or> videoHeight video = 0) \<and> ctx"
proof (cases "videoWidth video = 0 \<or> videoHeight video = 0")
  case True
  with assms show ?thesis
    by (auto simp: extractDetections_def)
next
  case dims: False
  show ?thesis
  proof (cases ctx)
    case False
    with assms dims show ?thesis
      by (auto simp: extractDetections_def)
  next
    case True
    with assms dims have "sampleLoop (videoWidth video) (videoHeight video) (duration video)
        (max SAMPLE_INTERVAL_SECONDS (b64 (duration video / of_nat MAX_SAMPLES))) video 0 0 [] [] =
        (Inl e, reported)"
      by (simp add: extractDetections_def Let_def)
    from sampleLoop_errors [OF this] dims True show ?thesis
      by simp
  qed
qed

lemma handleAnalyze_started:
  assumes "cvReady s" and "extractDetections ctx video = (outcome, reported)"
  shows "handleAnalyze convert now ctx (Some video) s =
    (case outcome of
       Inl e \<Rightarrow>
         s\<lparr>error := Some (errorMessage e), progress := last (Num 0 # reported),
           isAnalyzing := False\<rparr>
     | Inr detectionPoints \<Rightarrow>
         if detectionPoints = []
         then s\<lparr>error := Some ''No valid ball samples detected. Ensure the ball is clearly visible and contrasts with the pitch.'',
                progress := last (Num 0 # reported), isAnalyzing := False\<rparr>
         else
           (case convert detectionPoints of
              Inl e \<Rightarrow>
                s\<lparr>error := Some (errorMessage e), progress := last (Num 0 # reported),
                  isAnalyzing := False\<rparr>
            | Inr hawkEyePoints \<Rightarrow>
                s\<lparr>error := None, isAnalyzing := False, detections := detectionPoints,
                  trajectory := hawkEyePoints, analysisTimestamp := Some now,
                  progress := Num 1\<rparr>))"
  using assms
  by (simp add: handleAnalyze_def fold_setProgress catchClause_def finallyClause_def
      errorMessage_def split: sum.splits)

lemma handleAnalyze_failed:
  assumes "cvReady s" and "runFailed convert ctx v"
  shows "\<exists>message p. handleAnalyze convert now ctx (Some v) s =
    s\<lparr>error := Some message, progress := p, isAnalyzing := False\<rparr>"
proof -
  obtain outcome reported where run: "extractDetections ctx v = (outcome, reported)"
    by (cases "extractDetections ctx v")
  note result = handleAnalyze_started [OF assms(1) run, of convert now]
  show ?thesis
  proof (cases outcome)
    case (Inl e)
    with result show ?thesis
      by (simp del: last.simps) blast
  next
    case (Inr ds)
    show ?thesis
    proof (cases "ds = []")
      case True
      with result Inr show ?thesis
        by (simp del: last.simps) blast
    next
      case False
      with assms(2) run Inr obtain e where "convert ds = Inl e"
        by (auto simp: runFailed_def)
      with result Inr False show ?thesis
        by (simp del: last.simps) blast
    qed
  qed
qed

lemma handleAnalyze_succeeded:
  assumes "cvReady s" and "\<not> runFailed convert ctx v"
  shows "\<exists>ds hs. fst (extractDetections ctx v) = Inr ds \<and> ds \<noteq> [] \<and> convert ds = Inr hs \<and>
    handleAnalyze convert now ctx (Some v) s =
      s\<lparr>error := None, isAnalyzing := False, detections := ds, trajectory := hs,
        analysisTimestamp := Some now, progress := Num 1\<rparr>"
proof -
  obtain outcome reported where run: "extractDetections ctx v = (outcome, reported)"
    by (cases "extractDetections ctx v")
  note result = handleAnalyze_started [OF assms(1) run, of convert now]
  from assms(2) run obtain ds where ds: "outcome = Inr ds" "ds \<noteq> []"
    by (cases outcome) (auto simp: runFailed_def)
  with assms(2) run obtain hs where hs: "convert ds = Inr hs"
    by (cases "convert ds") (auto simp: runFailed_def)
  from result ds hs run show ?thesis
    by simp
qed

section \<open>The concrete inputs evaluated\<close>

lemma detectBall_speck_ball:
  "detectBall \<lparr>mat_cols = 640, mat_rows = 360, contours = [speck, ball]\<rparr> emptyHeap =
     (Inr (Some \<lparr>cand_x = 320, cand_y = 180,
                 cand_confidence = 4421398595017775 / 68398419340689408\<rparr>),
      \<lparr>nextHandle = 18, live = [15]\<rparr>)"
  by (simp add: detectBall_def locateBest_def Let_def cv_new_record cv_delete_record
      emptyHeap_def mat_empty_def downscaleWidth_def Math_round_def Math_PI_def speck_def
      ball_def floor_rat_numeral_divide)

lemma detectBall_no_picture:
  "detectBall \<lparr>mat_cols = 640, mat_rows = 360, contours = []\<rparr> emptyHeap =
     (Inr None, \<lparr>nextHandle = 15, live = []\<rparr>)"
  by (simp add: detectBall_def locateBest_def Let_def cv_new_record cv_delete_record
      emptyHeap_def mat_empty_def downscaleWidth_def Math_round_def floor_rat_numeral_divide)

lemma extractDetections_blankClip:
  "fst (extractDetections True (blankClip d)) = Inr []"
  by (simp add: extractDetections_def blankClip_def clip_def Let_def sampleLoop_blank)

lemma extractDetections_noDimsClip:
  "extractDetections ctx noDimsClip =
     (Inl (Error ''Video dimensions unavailable. Please choose a different file.''), [])"
  by (simp add: extractDetections_def noDimsClip_def)

section \<open>Which buffers stay alive\<close>

lemma scanContours_heap:
  assumes "\<forall>h\<in>set L. h < n"
  shows "\<exists>leaked. snd (scanContours cs i bi bs \<lparr>nextHandle = n, live = L\<rparr>) =
      \<lparr>nextHandle = n + length cs, live = L @ leaked\<rparr> \<and>
    length leaked = length (filter (\<lambda>c. \<not> qualifies c) cs) \<and>
    (\<forall>h\<in>set leaked. n \<le> h \<and> h < n + length cs)"
  using assms
proof (induction cs arbitrary: i bi bs n L)
  case Nil
  then show ?case by simp
next
  case (Cons c cs)
  show ?case
  proof (cases "qualifies c")
    case False
    then have skip: "contourArea c < 15 \<or> arcLength c = 0"
      by (auto simp: qualifies_def)
    have L': "\<forall>h\<in>set (L @ [n]). h < Suc n"
      using Cons.prems by auto
    from Cons.IH [OF L', of "i + 1" bi bs] obtain leaked where
      "snd (scanContours cs (i + 1) bi bs \<lparr>nextHandle = Suc n, live = L @ [n]\<rparr>) =
        \<lparr>nextHandle = Suc n + length cs, live = (L @ [n]) @ leaked\<rparr>"
      "length leaked = length (filter (\<lambda>c. \<not> qualifies c) cs)"
      "\<forall>h\<in>set leaked. Suc n \<le> h \<and> h < Suc n + length cs"
      by blast
    with False skip show ?thesis
      by (intro exI [of _ "n # leaked"])
        (cases "contourArea c < 15"; auto simp: cv_new_record Let_def)
  next
    case True
    then have go: "\<not> contourArea c < 15" "arcLength c \<noteq> 0"
      by (auto simp: qualifies_def)
    have L': "\<forall>h\<in>set L. h < Suc n"
      using Cons.prems by auto
    have fresh: "removeAll n L = L"
      using Cons.prems by (intro removeAll_id) auto
    obtain bs1 bi1 where best: "(if bs < 4 * Math_PI * contourArea c / (arcLength c * arcLength c) * contourArea c
        then (4 * Math_PI * contourArea c / (arcLength c * arcLength c) * contourArea c, i)
        else (bs, bi)) = (bs1, bi1)"
      by (metis prod.collapse)
    from Cons.IH [OF L', of "i + 1" bi1 bs1] obtain leaked where
      "snd (scanContours cs (i + 1) bi1 bs1 \<lparr>nextHandle = Suc n, live = L\<rparr>) =
        \<lparr>nextHandle = Suc n + length cs, live = L @ leaked\<rparr>"
      "length leaked = length (filter (\<lambda>c. \<not> qualifies c) cs)"
      "\<forall>h\<in>set leaked. Suc n \<le> h \<and> h < Suc n + length cs"
      by blast
    with True go best fresh show ?thesis
      by (intro exI [of _ leaked]) (auto simp: cv_new_record cv_delete_record Let_def)
  qed
qed

lemma locateBest_heap:
  assumes "\<forall>h\<in>set L. h < n"
  shows "snd (locateBest f tw th bi bs \<lparr>nextHandle = n, live = L\<rparr>) =
    \<lparr>nextHandle = (if 0 \<le> bi then Suc n else n), live = L\<rparr>"
proof -
  have "removeAll n L = L"
    using assms by (intro removeAll_id) auto
  then show ?thesis
    by (simp add: locateBest_def cv_new_record cv_delete_record Let_def)
qed

lemma detectBall_heap:
  assumes L: "\<forall>h\<in>set L. h < n"
    and ok: "\<not> mat_empty f"
    and dims: "\<not> 960 * mat_rows f < mat_cols f"
  shows "\<exists>leaked m. snd (detectBall f \<lparr>nextHandle = n, live = L\<rparr>) =
      \<lparr>nextHandle = m, live = L @ leaked\<rparr> \<and>
    length leaked = length (filter (\<lambda>c. \<not> qualifies c) (contours f))"
proof -
  define n15 where "n15 = Suc (Suc (Suc (Suc (Suc (Suc (Suc (Suc (Suc (Suc (Suc (Suc (Suc (Suc (Suc n))))))))))))))"
  define B where "B = [n, Suc n, Suc (Suc n), Suc (Suc (Suc n)), Suc (Suc (Suc (Suc n))),
    Suc (Suc (Suc (Suc (Suc n)))), Suc (Suc (Suc (Suc (Suc (Suc n))))),
    Suc (Suc (Suc (Suc (Suc (Suc (Suc n)))))), Suc (Suc (Suc (Suc (Suc (Suc (Suc (Suc n))))))),
    Suc (Suc (Suc (Suc (Suc (Suc (Suc (Suc (Suc n)))))))),
    Suc (Suc (Suc (Suc (Suc (Suc (Suc (Suc (Suc (Suc n))))))))),
    Suc (Suc (Suc (Suc (Suc (Suc (Suc (Suc (Suc (Suc (Suc n)))))))))),
    Suc (Suc (Suc (Suc (Suc (Suc (Suc (Suc (Suc (Suc (Suc (Suc n))))))))))),
    Suc (Suc (Suc (Suc (Suc (Suc (Suc (Suc (Suc (Suc (Suc (Suc (Suc n)))))))))))),
    Suc (Suc (Suc (Suc (Suc (Suc (Suc (Suc (Suc (Suc (Suc (Suc (Suc (Suc n)))))))))))))]"
  have w: "\<not> Math_round (of_nat (mat_cols f) *
        (if mat_cols f > downscaleWidth then of_nat downscaleWidth / of_nat (mat_cols f) else 1)) \<le> 0"
    using targetWidth_pos [OF ok, unfolded targetScale_def] by simp
  have h: "\<not> Math_round (of_nat (mat_rows f) *
        (if mat_cols f > downscaleWidth then of_nat downscaleWidth / of_nat (mat_cols f) else 1)) \<le> 0"
    using targetHeight_pos_iff [OF ok, unfolded targetScale_def] dims by simp
  have LB: "\<forall>h\<in>set (L @ B). h < n15"
    using L by (auto simp: B_def n15_def)
  obtain bi bs H2 where scan: "scanContours (contours f) 0 (- 1) 0 \<lparr>nextHandle = n15, live = L @ B\<rparr> =
      ((bi, bs), H2)"
    by (metis prod.collapse)
  from scanContours_heap [OF LB, of "contours f" 0 "- 1" 0] scan obtain leaked
    where H2: "H2 = \<lparr>nextHandle = n15 + length (contours f), live = (L @ B) @ leaked\<rparr>"
      and count: "length leaked = length (filter (\<lambda>c. \<not> qualifies c) (contours f))"
      and range: "\<forall>h\<in>set leaked. n15 \<le> h \<and> h < n15 + length (contours f)"
    by auto
  have LBl: "\<forall>h\<in>set ((L @ B) @ leaked). h < n15 + length (contours f)"
    using LB range by (auto simp: trans_less_add1)
  define m where "m = (if 0 \<le> bi then Suc (n15 + length (contours f)) else n15 + length (contours f))"
  have best: "snd (locateBest f tw th bi bs H2) = \<lparr>nextHandle = m, live = (L @ B) @ leaked\<rparr>"
    for tw th
    unfolding H2 m_def by (rule locateBest_heap [OF LBl])
  have keep: "\<forall>h\<in>set B. removeAll h L = L \<and> removeAll h leaked = leaked"
  proof
    fix h assume "h \<in> set B"
    then have "n \<le> h" "h < n15"
      by (auto simp: B_def n15_def)
    with L range show "removeAll h L = L \<and> removeAll h leaked = leaked"
      by (intro conjI removeAll_id) auto
  qed
  have "snd (detectBall f \<lparr>nextHandle = n, live = L\<rparr>) = \<lparr>nextHandle = m, live = L @ leaked\<rparr>"
    using ok w h keep
    unfolding detectBall_def Let_def cv_new_record append_assoc append_Cons append_Nil
      n15_def [symmetric] prod.case
    apply (simp only: if_False HOL.simp_thms)
    apply (fold B_def)
    apply (simp only: scan prod.case split_def fst_conv snd_conv)
    apply (simp only: best cv_delete_record)
    apply (simp add: B_def)
    done
  with count show ?thesis
    by blast
qed

lemma detectBall_empty_frame_releases:
  assumes "\<forall>h\<in>set (live H). h < nextHandle H" and "mat_empty f"
  shows "detectBall f H = (Inr None, H\<lparr>nextHandle := Suc (nextHandle H)\<rparr>)"
proof -
  have "removeAll (nextHandle H) (live H) = live H"
    using assms(1) by (intro removeAll_id) auto
  with assms(2) show ?thesis
    by (simp add: detectBall_def cv_new_def cv_delete_def)
qed

lemma detectBall_live:
  assumes "\<forall>h\<in>set (live H). h < nextHandle H"
    and "\<not> mat_empty f" and "\<not> 960 * mat_rows f < mat_cols f"
  shows "\<exists>leaked. live (snd (detectBall f H)) = live H @ leaked \<and>
    length leaked = length (filter (\<lambda>c. \<not> qualifies c) (contours f))"
proof -
  have H: "\<lparr>nextHandle = nextHandle H, live = live H\<rparr> = H"
    by simp
  from detectBall_heap [OF assms] obtain leaked m where
    "snd (detectBall f \<lparr>nextHandle = nextHandle H, live = live H\<rparr>) =
      \<lparr>nextHandle = m, live = live H @ leaked\<rparr>"
    "length leaked = length (filter (\<lambda>c. \<not> qualifies c) (contours f))"
    by blast
  then show ?thesis
    unfolding H by (intro exI [of _ leaked]) simp
qed

lemma detectBall_releases_all_iff:
  assumes "\<forall>h\<in>set (live H). h < nextHandle H"
    and "\<not> mat_empty f" and "\<not> 960 * mat_rows f < mat_cols f"
  shows "live (snd (detectBall f H)) = live H \<longleftrightarrow> (\<forall>c\<in>set (contours f). qualifies c)"
proof -
  from detectBall_live [OF assms] obtain leaked where
    live: "live (snd (detectBall f H)) = live H @ leaked"
    and count: "length leaked = length (filter (\<lambda>c. \<not> qualifies c) (contours f))"
    by blast
  have "live (snd (detectBall f H)) = live H \<longleftrightarrow> leaked = []"
    by (simp add: live)
  also have "\<dots> \<longleftrightarrow> filter (\<lambda>c. \<not> qualifies c) (contours f) = []"
    using count by (metis length_0_conv)
  also have "\<dots> \<longleftrightarrow> (\<forall>c\<in>set (contours f). qualifies c)"
    by (simp add: filter_empty_conv)
  finally show ?thesis .
qed

section \<open>Properties of the sampler as a whole\<close>

lemma extractDetections_loop:
  assumes "\<not> (videoWidth video = 0 \<or> videoHeight video = 0)" and ctx
  shows "extractDetections ctx video =
    sampleLoop (videoWidth video) (videoHeight video) (duration video)
      (sampleIntervalOf (duration video)) video 0 0 [] []"
  using assms by (simp add: extractDetections_def Let_def sampleIntervalOf_def)

lemma extractDetections_reported:
  assumes "extractDetections ctx video = (out, reported)"
  shows "\<exists>n \<le> length (sampleTimes (duration video) (sampleIntervalOf (duration video)) 0 0).
     reported = map (\<lambda>x. progressValue x (duration video))
       (take n (sampleTimes (duration video) (sampleIntervalOf (duration video)) 0 0)) \<and>
     (\<forall>dets. out = Inr dets \<longrightarrow>
        n = length (sampleTimes (duration video) (sampleIntervalOf (duration video)) 0 0)) \<and>
     (\<forall>e. out = Inl e \<and> (e = Error ''Failed to seek video frame.'' \<or> e = NonError) \<longrightarrow>
        n < length (sampleTimes (duration video) (sampleIntervalOf (duration video)) 0 0))"
proof (cases "\<not> (videoWidth video = 0 \<or> videoHeight video = 0) \<and> ctx")
  case True
  with assms have "sampleLoop (videoWidth video) (videoHeight video) (duration video)
      (sampleIntervalOf (duration video)) video 0 0 [] [] = (out, reported)"
    by (simp add: extractDetections_loop)
  from sampleLoop_reported [OF this] show ?thesis
    by auto
next
  case False
  with assms have "reported = []" and "\<exists>m. out = Inl (Error m) \<and>
      m \<noteq> ''Failed to seek video frame.''"
    by (auto simp: extractDetections_def Let_def split: if_splits)
  then show ?thesis
    by (intro exI [of _ 0]) auto
qed

text \<open>The invariant of the loop, for the list that \<open>extractDetections\<close> returns.\<close>

lemma extractDetections_detections:
  assumes "extractDetections ctx video = (Inr dets, reported)"
  shows "sorted_wrt (\<lambda>a b. b64 (a + sampleIntervalOf (duration video)) \<le> b)
      (map dp_time dets) \<and>
    (\<forall>p\<in>set dets. 0 \<le> dp_time p \<and> dp_time p \<le> duration video) \<and>
    (\<forall>p\<in>set dets.
       dp_normX p = of_int (dp_x p) / of_nat (videoWidth video) \<and>
       dp_normY p = of_int (dp_y p) / of_nat (videoHeight video) \<and>
       0 \<le> dp_confidence p \<and> dp_confidence p \<le> 1) \<and>
    length dets \<le> length reported"
proof -
  define d where "d = duration video"
  define i where "i = sampleIntervalOf d"
  from assms have ok: "\<not> (videoWidth video = 0 \<or> videoHeight video = 0)" ctx
    by (auto simp: extractDetections_def Let_def split: if_splits)
  with assms have loop: "sampleLoop (videoWidth video) (videoHeight video) d i
      video 0 0 [] [] = (Inr dets, reported)"
    by (simp add: extractDetections_loop i_def d_def)
  have forward: "\<forall>x. 0 \<le> x \<and> x \<le> d \<longrightarrow> x < b64 (x + i)"
    by (simp add: i_def sampleIntervalOf_step)
  from sampleLoop_reported [OF loop]
  have "length reported = length (sampleTimes d i 0 0)"
    by auto
  with sampleLoop_detections [OF loop forward] show ?thesis
    by (simp add: i_def d_def)
qed

lemma reported_blankClip:
  "snd (extractDetections True (blankClip d)) =
     map (\<lambda>x. progressValue x d) (sampleTimes d (sampleIntervalOf d) 0 0)"
proof -
  have run: "extractDetections True (blankClip d) =
      (Inr [], snd (extractDetections True (blankClip d)))"
    using extractDetections_blankClip [of d] by (metis prod.collapse)
  from extractDetections_reported [OF run] show ?thesis
    by (auto simp: blankClip_def clip_def)
qed

lemma last_reported_blankClip:
  assumes "0 \<le> d"
  shows "last (snd (extractDetections True (blankClip d))) =
    progressValue (last (sampleTimes d (sampleIntervalOf d) 0 0)) d"
  using schedule_nonempty [OF assms, of "sampleIntervalOf d"]
  by (simp add: reported_blankClip last_map)

text \<open>
  A clip of duration zero is sampled once, at time zero, and the value reported is
  \<open>min(1, 0 / 0)\<close>, which is \<open>NaN\<close>.
\<close>

lemma extractDetections_zero_duration:
  "extractDetections True (blankClip 0) = (Inr [], [NaN])"
proof -
  have "sampleTimes 0 (sampleIntervalOf 0) 0 0 =
      0 # sampleTimes 0 (sampleIntervalOf 0) (b64 (0 + sampleIntervalOf 0)) (0 + 1)"
    by (rule sampleTimes_Cons) simp
  moreover have "sampleTimes 0 (sampleIntervalOf 0) (b64 (0 + sampleIntervalOf 0)) (0 + 1) = []"
    using sampleIntervalOf_step [of 0 0] by (intro sampleTimes_Nil) simp
  ultimately have "sampleTimes 0 (sampleIntervalOf 0) 0 0 = [0]"
    by simp
  then have "snd (extractDetections True (blankClip 0)) = [NaN]"
    by (simp add: reported_blankClip progressValue_def)
  with extractDetections_blankClip [of 0] show ?thesis
    by (metis prod.collapse)
qed

subsection \<open>The runs on the clip with the ball and on the clip that cannot be sought\<close>

lemma extractDetections_ballClip:
  "extractDetections True ballClip =
     (Inr [\<lparr>dp_time = 0, dp_x = 320, dp_y = 180, dp_normX = 1 / 2, dp_normY = 1 / 2,
            dp_confidence = 4421398595017775 / 68398419340689408\<rparr>,
           \<lparr>dp_time = 5764607523034235 / 72057594037927936, dp_x = 320, dp_y = 180,
            dp_normX = 1 / 2, dp_normY = 1 / 2,
            dp_confidence = 4421398595017775 / 68398419340689408\<rparr>],
      [Num 0, Num (5764607523034235 / 9007199254740992)])"
proof -
  have "extractDetections True ballClip =
      sampleLoop 640 360 (1 / 8) (5764607523034235 / 72057594037927936) ballClip 0 0 [] []"
    by (simp add: extractDetections_loop ballClip_def clip_def sampleIntervalOf_short)
  then show ?thesis
    by (simp add: ballClip_def clip_def sampleLoop.simps seekVideo_def drawImage_def
        detectBall_speck_ball progressValue_def MAX_SAMPLES_def Let_def b64_binades
        b64_one_hundredth roundHalfEven_def floor_rat_numeral_divide)
qed

lemma extractDetections_brokenClip:
  "extractDetections True brokenClip = (Inl (Error ''Failed to seek video frame.''), [Num 0])"
proof -
  have "extractDetections True brokenClip =
      sampleLoop 640 360 2 (5764607523034235 / 72057594037927936) brokenClip 0 0 [] []"
    by (simp add: extractDetections_loop brokenClip_def clip_def sampleIntervalOf_short)
  then show ?thesis
    by (simp add: brokenClip_def clip_def sampleLoop.simps seekVideo_def drawImage_def
        detectBall_no_picture progressValue_def MAX_SAMPLES_def Let_def b64_binades
        b64_one_hundredth roundHalfEven_def floor_rat_numeral_divide)
qed

section \<open>Claim C1: progress reports\<close>

text \<open>
  Claim C1, amended. For every clip of positive duration on which sampling completes,
  \<open>onProgress\<close> is called once after every sampled step, whether or not the step
  yielded a detection, with the value \<open>min(1, time / duration)\<close> of that step's time,
  the quotient being rounded to binary64; the reported values lie in \<open>[0, 1]\<close> and never
  decrease; and the final value is that of the last sampled time, which is at most the
  duration. For a duration that is a binary64 number, as every duration of the program
  is, the final value is 1 exactly when the last sampled time is the duration itself.
  None of this depends on the detections found. The last sampled time of a two-second
  clip is \<open>1.9200000000000006\<close> and its final value \<open>0.9600000000000003\<close>
  (\<open>schedule_2\<close>).
\<close>

theorem extractDetections_progress_reports:
  assumes "0 < duration video"
    and "extractDetections ctx video = (Inr dets, reported)"
  shows "reported \<noteq> [] \<and>
    length reported =
      length (sampleTimes (duration video) (sampleIntervalOf (duration video)) 0 0) \<and>
    (\<forall>n<length reported.
       reported ! n =
         Num (min 1 (b64 (sampleTimes (duration video) (sampleIntervalOf (duration video)) 0 0 ! n /
           duration video)))) \<and>
    (\<forall>m n. m \<le> n \<and> n < length reported \<longrightarrow>
       (\<exists>p q. reported ! m = Num p \<and> reported ! n = Num q \<and> 0 \<le> p \<and> p \<le> q \<and> q \<le> 1)) \<and>
    last (sampleTimes (duration video) (sampleIntervalOf (duration video)) 0 0) \<le>
      duration video \<and>
    last reported =
      Num (min 1 (b64 (last (sampleTimes (duration video) (sampleIntervalOf (duration video)) 0 0) /
        duration video))) \<and>
    (b64 (duration video) = duration video \<longrightarrow>
       (last reported = Num 1 \<longleftrightarrow>
        last (sampleTimes (duration video) (sampleIntervalOf (duration video)) 0 0) =
          duration video))"
proof -
  define d where "d = duration video"
  define i where "i = sampleIntervalOf d"
  define ts where "ts = sampleTimes d i 0 0"
  have d: "0 < d" using assms(1) by (simp add: d_def)
  from extractDetections_reported [OF assms(2)]
  have rep: "reported = map (\<lambda>x. progressValue x d) ts"
    by (auto simp: d_def i_def ts_def)
  have len: "length reported = length ts"
    by (simp add: rep)
  have ts_ne: "ts \<noteq> []"
    using d by (simp add: ts_def schedule_nonempty)
  then have ne: "reported \<noteq> []"
    by (simp add: rep)
  have bounds: "0 \<le> x \<and> x \<le> d \<and> b64 x = x" if "x \<in> set ts" for x
    using that schedule_bounds [of x d] by (simp add: ts_def i_def)
  have nth: "reported ! n = Num (min 1 (b64 (ts ! n / d)))" if "n < length reported" for n
    using that d by (simp add: rep progressValue_def)
  have increasing: "ts ! m \<le> ts ! n" if "m \<le> n" "n < length ts" for m n
  proof (cases "m = n")
    case True
    then show ?thesis by simp
  next
    case False
    with that have "m < n" by simp
    moreover have "sorted_wrt (<) ts"
      using sampleTimes_sorted [of 0 d 0] by (simp add: ts_def i_def)
    ultimately have "ts ! m < ts ! n"
      using that(2) by (simp add: sorted_wrt_iff_nth_less)
    then show ?thesis by simp
  qed
  have mono: "\<exists>p q. reported ! m = Num p \<and> reported ! n = Num q \<and> 0 \<le> p \<and> p \<le> q \<and> q \<le> 1"
    if "m \<le> n" "n < length reported" for m n
  proof -
    from that have m: "m < length reported" by simp
    with len have "ts ! m \<in> set ts" by simp
    from bounds [OF this] d have low: "0 \<le> ts ! m / d"
      by simp
    from increasing [OF that(1)] that(2) d have "ts ! m / d \<le> ts ! n / d"
      by (simp add: len divide_right_mono)
    with low have "b64 (ts ! m / d) \<le> b64 (ts ! n / d)"
      by (rule b64_mono)
    then have "min 1 (b64 (ts ! m / d)) \<le> min 1 (b64 (ts ! n / d))"
      by (simp add: min_def)
    moreover have "0 \<le> min 1 (b64 (ts ! m / d))"
      using b64_nonneg [OF low] by simp
    ultimately show ?thesis
      using nth [OF m] nth [OF that(2)] by simp
  qed
  have last_time: "0 \<le> last ts \<and> last ts \<le> d \<and> b64 (last ts) = last ts"
    using ts_ne by (intro bounds) simp
  have final: "last reported = Num (min 1 (b64 (last ts / d)))"
    using ts_ne d by (simp add: rep last_map progressValue_def)
  have exact: "last reported = Num 1 \<longleftrightarrow> last ts = d" if binary: "b64 d = d"
  proof (cases "last ts = d")
    case True
    with d show ?thesis
      by (simp add: final)
  next
    case False
    with last_time have "last ts < d"
      by simp
    with last_time binary have "b64 (last ts / d) < 1"
      by (intro b64_quotient_less_one) simp_all
    with False show ?thesis
      by (simp add: final)
  qed
  from ne len nth mono last_time final exact show ?thesis
    unfolding d_def [symmetric] i_def [symmetric] ts_def [symmetric] by blast
qed

theorem extractDetections_progress_reports_witness:
  "0 < duration (blankClip 2) \<and>
   extractDetections True (blankClip 2) = (Inr [], snd (extractDetections True (blankClip 2))) \<and>
   length (snd (extractDetections True (blankClip 2))) = 25 \<and>
   snd (extractDetections True (blankClip 2)) \<noteq> [] \<and>
   length (snd (extractDetections True (blankClip 2))) =
     length (sampleTimes (duration (blankClip 2))
       (sampleIntervalOf (duration (blankClip 2))) 0 0) \<and>
   snd (extractDetections True (blankClip 2)) ! 24 =
     Num (min 1 (b64 (sampleTimes (duration (blankClip 2))
       (sampleIntervalOf (duration (blankClip 2))) 0 0 ! 24 / duration (blankClip 2)))) \<and>
   (\<exists>p q. snd (extractDetections True (blankClip 2)) ! 3 = Num p \<and>
          snd (extractDetections True (blankClip 2)) ! 24 = Num q \<and>
          0 \<le> p \<and> p \<le> q \<and> q \<le> 1) \<and>
   last (sampleTimes (duration (blankClip 2)) (sampleIntervalOf (duration (blankClip 2))) 0 0) =
     8646911284551355 / 4503599627370496 \<and>
   last (snd (extractDetections True (blankClip 2))) =
     Num (min 1 (b64 (last (sampleTimes (duration (blankClip 2))
       (sampleIntervalOf (duration (blankClip 2))) 0 0) / duration (blankClip 2)))) \<and>
   b64 (duration (blankClip 2)) = duration (blankClip 2) \<and>
   (last (snd (extractDetections True (blankClip 2))) = Num 1 \<longleftrightarrow>
      last (sampleTimes (duration (blankClip 2)) (sampleIntervalOf (duration (blankClip 2))) 0 0) =
        duration (blankClip 2))"
proof -
  have run: "extractDetections True (blankClip 2) =
      (Inr [], snd (extractDetections True (blankClip 2)))"
    using extractDetections_blankClip [of 2] by (metis prod.collapse)
  have d: "duration (blankClip 2) = 2"
    by (simp add: blankClip_def clip_def)
  have pos: "0 < duration (blankClip 2)"
    by (simp add: d)
  have binary: "b64 (duration (blankClip 2)) = duration (blankClip 2)"
    using b64_representable [of 2 0] by (simp add: d)
  have len: "length (snd (extractDetections True (blankClip 2))) = 25"
    by (simp add: reported_blankClip schedule_2)
  have last_time: "last (sampleTimes (duration (blankClip 2))
      (sampleIntervalOf (duration (blankClip 2))) 0 0) = 8646911284551355 / 4503599627370496"
    by (simp add: d schedule_2)
  note claim = extractDetections_progress_reports [OF pos run]
  from claim have "\<forall>n<length (snd (extractDetections True (blankClip 2))).
      snd (extractDetections True (blankClip 2)) ! n =
        Num (min 1 (b64 (sampleTimes (duration (blankClip 2))
          (sampleIntervalOf (duration (blankClip 2))) 0 0 ! n / duration (blankClip 2))))"
    by blast
  moreover have "24 < length (snd (extractDetections True (blankClip 2)))"
    by (simp add: len)
  ultimately have nth: "snd (extractDetections True (blankClip 2)) ! 24 =
     Num (min 1 (b64 (sampleTimes (duration (blankClip 2))
       (sampleIntervalOf (duration (blankClip 2))) 0 0 ! 24 / duration (blankClip 2))))"
    by blast
  from claim have "\<forall>m n. m \<le> n \<and> n < length (snd (extractDetections True (blankClip 2))) \<longrightarrow>
      (\<exists>p q. snd (extractDetections True (blankClip 2)) ! m = Num p \<and>
             snd (extractDetections True (blankClip 2)) ! n = Num q \<and>
             0 \<le> p \<and> p \<le> q \<and> q \<le> 1)"
    by blast
  moreover have "(3 :: nat) \<le> 24 \<and> 24 < length (snd (extractDetections True (blankClip 2)))"
    by (simp add: len)
  ultimately have mono: "\<exists>p q. snd (extractDetections True (blankClip 2)) ! 3 = Num p \<and>
          snd (extractDetections True (blankClip 2)) ! 24 = Num q \<and>
          0 \<le> p \<and> p \<le> q \<and> q \<le> 1"
    by blast
  from claim binary have exact: "last (snd (extractDetections True (blankClip 2))) = Num 1 \<longleftrightarrow>
      last (sampleTimes (duration (blankClip 2)) (sampleIntervalOf (duration (blankClip 2))) 0 0) =
        duration (blankClip 2)"
    by blast
  from claim pos run len nth mono last_time binary exact show ?thesis
    by (intro conjI) blast+
qed

text \<open>
  The final value of a completed run is not 1 in general: it is \<open>0.9599999999999999\<close>
  for a clip of one second and \<open>0.9600000000000003\<close> for the clip of two seconds that
  the claim names.
\<close>

theorem extractDetections_final_progress_counterexample:
  "0 < duration (blankClip 1) \<and>
   fst (extractDetections True (blankClip 1)) = Inr [] \<and>
   last (snd (extractDetections True (blankClip 1))) =
     Num (8646911284551351 / 9007199254740992) \<and>
   last (snd (extractDetections True (blankClip 1))) \<noteq> Num 1 \<and>
   0 < duration (blankClip 2) \<and>
   fst (extractDetections True (blankClip 2)) = Inr [] \<and>
   last (snd (extractDetections True (blankClip 2))) =
     Num (8646911284551355 / 9007199254740992) \<and>
   last (snd (extractDetections True (blankClip 2))) \<noteq> Num 1"
proof -
  have d: "duration (blankClip 1) = 1" "duration (blankClip 2) = 2"
    by (simp_all add: blankClip_def clip_def)
  have one: "last (snd (extractDetections True (blankClip 1))) =
      Num (8646911284551351 / 9007199254740992)"
    by (simp add: last_reported_blankClip schedule_1 progressValue_def b64_binades
        roundHalfEven_def Let_def floor_rat_numeral_divide)
  have two: "last (snd (extractDetections True (blankClip 2))) =
      Num (8646911284551355 / 9007199254740992)"
    by (simp add: last_reported_blankClip schedule_2 progressValue_def b64_binades
        roundHalfEven_def Let_def floor_rat_numeral_divide)
  show ?thesis
    by (simp add: d one two extractDetections_blankClip)
qed

section \<open>Claim C2: the sampling interval and the number of steps\<close>

text \<open>
  Claim C2, amended. For every clip the sampling interval is
  \<open>max(0.08, duration / 320)\<close> seconds, computed in binary64 and at least 0.08; the
  first step samples the time 0 and every later step the rounded sum of the time before
  it and the interval, and a step is made only while that time is at most the duration
  and the index of the step is at most \<open>maxSamples = 320\<close>. The indices run from 0,
  so no run makes more than 321 sampled steps, the step at which a run fails included; a
  clip of two seconds yields at most 26 steps (it yields 25, \<open>schedule_2\<close>).
\<close>

theorem extractDetections_step_bound:
  assumes "extractDetections ctx video = (out, reported)"
  shows "sampleIntervalOf (duration video) = max (b64 (8 / 100)) (b64 (duration video / 320)) \<and>
    8 / 100 \<le> sampleIntervalOf (duration video) \<and>
    (\<forall>n<length reported.
       n < length (sampleTimes (duration video) (sampleIntervalOf (duration video)) 0 0) \<and>
       reported ! n =
         progressValue (sampleTimes (duration video) (sampleIntervalOf (duration video)) 0 0 ! n)
           (duration video) \<and>
       (n = 0 \<longrightarrow>
          sampleTimes (duration video) (sampleIntervalOf (duration video)) 0 0 ! n = 0) \<and>
       (0 < n \<longrightarrow>
          sampleTimes (duration video) (sampleIntervalOf (duration video)) 0 0 ! n =
            b64 (sampleTimes (duration video) (sampleIntervalOf (duration video)) 0 0 ! (n - 1) +
              sampleIntervalOf (duration video))) \<and>
       sampleTimes (duration video) (sampleIntervalOf (duration video)) 0 0 ! n \<le>
         duration video \<and>
       n \<le> 320) \<and>
    length reported \<le> 321 \<and>
    (\<forall>e. out = Inl e \<longrightarrow> Suc (length reported) \<le> 321) \<and>
    (\<forall>dets. out = Inr dets \<longrightarrow>
       length reported =
         length (sampleTimes (duration video) (sampleIntervalOf (duration video)) 0 0)) \<and>
    (duration video = 2 \<longrightarrow> length reported \<le> 26)"
proof -
  define d where "d = duration video"
  define i where "i = sampleIntervalOf d"
  define ts where "ts = sampleTimes d i 0 0"
  have interval: "i = max (b64 (8 / 100)) (b64 (d / 320))"
    unfolding i_def sampleIntervalOf_def SAMPLE_INTERVAL_SECONDS_def MAX_SAMPLES_def
    by (simp only: of_nat_numeral)
  have floor: "8 / 100 \<le> i"
    unfolding i_def by (rule sampleIntervalOf_ge_decimal)
  from extractDetections_reported [OF assms] obtain n where n: "n \<le> length ts"
    and rep: "reported = map (\<lambda>x. progressValue x d) (take n ts)"
    and full: "\<forall>dets. out = Inr dets \<longrightarrow> n = length ts"
    and part: "\<forall>e. out = Inl e \<and> (e = Error ''Failed to seek video frame.'' \<or> e = NonError) \<longrightarrow>
        n < length ts"
    unfolding d_def i_def ts_def by blast
  have len: "length reported = n"
    using n by (simp add: rep)
  have bound: "length ts \<le> 321"
    using sampleTimes_length_le [of d i 0 0] by (simp add: ts_def MAX_SAMPLES_def)
  have steps: "\<forall>m<length reported.
      m < length ts \<and> reported ! m = progressValue (ts ! m) d \<and>
      (m = 0 \<longrightarrow> ts ! m = 0) \<and> (0 < m \<longrightarrow> ts ! m = b64 (ts ! (m - 1) + i)) \<and>
      ts ! m \<le> d \<and> m \<le> 320"
  proof (intro allI impI)
    fix m
    assume "m < length reported"
    with n have m: "m < length ts" "m < n"
      by (simp_all add: len)
    then have "ts \<noteq> []"
      by auto
    then have "ts ! 0 = 0"
      unfolding ts_def by (rule sampleTimes_nth_0)
    then have first: "m = 0 \<longrightarrow> ts ! m = 0"
      by blast
    have later: "0 < m \<longrightarrow> ts ! m = b64 (ts ! (m - 1) + i)"
    proof
      assume "0 < m"
      then obtain m' where m': "m = Suc m'"
        by (cases m) simp_all
      with m(1) have "Suc m' < length (sampleTimes d i 0 0)"
        by (simp add: ts_def)
      then have "sampleTimes d i 0 0 ! Suc m' = b64 (sampleTimes d i 0 0 ! m' + i)"
        by (rule sampleTimes_nth_Suc)
      then show "ts ! m = b64 (ts ! (m - 1) + i)"
        by (simp add: ts_def m')
    qed
    have reportedValue: "reported ! m = progressValue (ts ! m) d"
      using m by (simp add: rep)
    from m(1) have "ts ! m \<in> set ts"
      by simp
    then have le: "ts ! m \<le> d"
      unfolding ts_def by (rule sampleTimes_le)
    from m(1) have index: "m \<le> 320"
      using sampleTimes_index [of m d i 0 0] by (simp add: ts_def MAX_SAMPLES_def)
    from m(1) reportedValue first later le index
    show "m < length ts \<and> reported ! m = progressValue (ts ! m) d \<and>
      (m = 0 \<longrightarrow> ts ! m = 0) \<and> (0 < m \<longrightarrow> ts ! m = b64 (ts ! (m - 1) + i)) \<and>
      ts ! m \<le> d \<and> m \<le> 320"
      by (intro conjI)
  qed
  have total: "length reported \<le> 321"
    using n bound by (simp add: len)
  have failing: "\<forall>e. out = Inl e \<longrightarrow> Suc (length reported) \<le> 321"
  proof (intro allI impI)
    fix e
    assume failed: "out = Inl e"
    show "Suc (length reported) \<le> 321"
    proof (cases "e = Error ''Failed to seek video frame.'' \<or> e = NonError")
      case True
      with part failed have "n < length ts"
        by blast
      with bound show ?thesis
        by (simp add: len)
    next
      case False
      with extractDetections_errors [of ctx video e reported] assms failed
      have "reported = []"
        by auto
      then show ?thesis
        by simp
    qed
  qed
  have completed: "\<forall>dets. out = Inr dets \<longrightarrow> length reported = length ts"
    using full by (simp add: len)
  have two: "d = 2 \<longrightarrow> length reported \<le> 26"
  proof
    assume "d = 2"
    then have "length ts = 25"
      using schedule_2 by (simp add: ts_def i_def)
    with n show "length reported \<le> 26"
      by (simp add: len)
  qed
  from interval floor steps total failing completed two show ?thesis
    unfolding d_def [symmetric] i_def [symmetric] ts_def [symmetric]
    by (intro conjI)
qed

theorem extractDetections_step_bound_witness:
  "extractDetections True ballClip =
     (Inr [\<lparr>dp_time = 0, dp_x = 320, dp_y = 180, dp_normX = 1 / 2, dp_normY = 1 / 2,
            dp_confidence = 4421398595017775 / 68398419340689408\<rparr>,
           \<lparr>dp_time = 5764607523034235 / 72057594037927936, dp_x = 320, dp_y = 180,
            dp_normX = 1 / 2, dp_normY = 1 / 2,
            dp_confidence = 4421398595017775 / 68398419340689408\<rparr>],
      [Num 0, Num (5764607523034235 / 9007199254740992)]) \<and>
   sampleIntervalOf (duration ballClip) = max (b64 (8 / 100)) (b64 (duration ballClip / 320)) \<and>
   [Num 0, Num (5764607523034235 / 9007199254740992)] ! 1 =
     progressValue (sampleTimes (duration ballClip) (sampleIntervalOf (duration ballClip)) 0 0 ! 1)
       (duration ballClip) \<and>
   sampleTimes (duration ballClip) (sampleIntervalOf (duration ballClip)) 0 0 ! 1 =
     b64 (sampleTimes (duration ballClip) (sampleIntervalOf (duration ballClip)) 0 0 ! 0 +
       sampleIntervalOf (duration ballClip)) \<and>
   sampleTimes (duration ballClip) (sampleIntervalOf (duration ballClip)) 0 0 ! 1 \<le>
     duration ballClip \<and>
   length [Num 0, Num (5764607523034235 / 9007199254740992)] \<le> 321 \<and>
   length [Num 0, Num (5764607523034235 / 9007199254740992)] =
     length (sampleTimes (duration ballClip) (sampleIntervalOf (duration ballClip)) 0 0)"
proof -
  note claim = extractDetections_step_bound [OF extractDetections_ballClip]
  from claim have interval:
    "sampleIntervalOf (duration ballClip) = max (b64 (8 / 100)) (b64 (duration ballClip / 320))"
    by (rule conjunct1)
  note rest = claim [THEN conjunct2, THEN conjunct2]
  have "1 < length [Num 0, Num (5764607523034235 / 9007199254740992)]"
    by simp
  note step = rest [THEN conjunct1, rule_format, OF this]
  note reportedValue = step [THEN conjunct2, THEN conjunct1]
  note later = step [THEN conjunct2, THEN conjunct2, THEN conjunct2, THEN conjunct1, rule_format]
  note le = step [THEN conjunct2, THEN conjunct2, THEN conjunct2, THEN conjunct2, THEN conjunct1]
  have "sampleTimes (duration ballClip) (sampleIntervalOf (duration ballClip)) 0 0 ! 1 =
     b64 (sampleTimes (duration ballClip) (sampleIntervalOf (duration ballClip)) 0 0 ! (1 - 1) +
       sampleIntervalOf (duration ballClip))"
    by (rule later) simp
  then have sum: "sampleTimes (duration ballClip) (sampleIntervalOf (duration ballClip)) 0 0 ! 1 =
     b64 (sampleTimes (duration ballClip) (sampleIntervalOf (duration ballClip)) 0 0 ! 0 +
       sampleIntervalOf (duration ballClip))"
    by (simp only: diff_self_eq_0)
  note total = rest [THEN conjunct2, THEN conjunct1]
  have "length [Num 0, Num (5764607523034235 / 9007199254740992)] =
     length (sampleTimes (duration ballClip) (sampleIntervalOf (duration ballClip)) 0 0)"
    by (rule rest [THEN conjunct2, THEN conjunct2, THEN conjunct2, THEN conjunct1, rule_format])
      (rule refl)
  with extractDetections_ballClip interval reportedValue sum le total show ?thesis
    by (intro conjI)
qed

text \<open>
  A clip of forty seconds is sampled every eighth of a second, at the times
  \<open>0, 0.125, \<dots>, 40\<close>, all of them binary64 numbers: 321 steps.
\<close>

theorem extractDetections_step_bound_counterexample:
  "fst (extractDetections True (blankClip 40)) = Inr [] \<and>
   length (snd (extractDetections True (blankClip 40))) = 321 \<and>
   \<not> length (snd (extractDetections True (blankClip 40))) \<le> 320"
  by (simp add: extractDetections_blankClip reported_blankClip schedule_length_40)

section \<open>Claim C3: release of the working buffers\<close>

text \<open>
  Claim C3 asks that every buffer allocated during a call of \<open>detectBall\<close> be
  released when the call returns, also where a contour is rejected. The loop over the
  contours leaves a rejected contour by \<open>continue\<close>, before the
  \<open>contour.delete()\<close> at the end of its body: on a frame whose only contour has an
  area of 10, the handle obtained from \<open>contours.get(0)\<close>, the sixteenth of the
  call, is still alive on return, while the fifteen buffers before it are released.
  In general (\<open>detectBall_live\<close>, \<open>detectBall_releases_all_iff\<close>) a call
  that returns leaves one handle alive for every rejected contour and nothing else, and
  the early exit on an empty frame releases its matrix
  (\<open>detectBall_empty_frame_releases\<close>).
\<close>

theorem detectBall_rejected_contour_not_released:
  "detectBall \<lparr>mat_cols = 640, mat_rows = 360, contours = [speck]\<rparr> emptyHeap =
     (Inr None, \<lparr>nextHandle = 16, live = [15]\<rparr>)"
  by (simp add: detectBall_def locateBest_def Let_def cv_new_record cv_delete_record
      emptyHeap_def mat_empty_def downscaleWidth_def Math_round_def speck_def
      floor_rat_numeral_divide)

section \<open>Claim C4: a run without detections\<close>

text \<open>
  Claim C4. When the sampling pass completes without a single detection, the run fails
  with the message about the visibility and contrast of the ball, which is not the
  message for an unexpected failure; no trajectory is produced: the projection is not
  applied, and the trajectory, the detections and the time stamp stay as they were.
\<close>

theorem handleAnalyze_no_detections:
  assumes "cvReady s" and "fst (extractDetections ctx video) = Inr []"
  shows "error (handleAnalyze convert now ctx (Some video) s) =
      Some ''No valid ball samples detected. Ensure the ball is clearly visible and contrasts with the pitch.'' \<and>
    error (handleAnalyze convert now ctx (Some video) s) \<noteq> Some (errorMessage NonError) \<and>
    \<not> isAnalyzing (handleAnalyze convert now ctx (Some video) s) \<and>
    trajectory (handleAnalyze convert now ctx (Some video) s) = trajectory s \<and>
    detections (handleAnalyze convert now ctx (Some video) s) = detections s \<and>
    analysisTimestamp (handleAnalyze convert now ctx (Some video) s) = analysisTimestamp s"
proof -
  from assms(2) have run: "extractDetections ctx video = (Inr [], snd (extractDetections ctx video))"
    by (metis prod.collapse)
  show ?thesis
    by (simp add: handleAnalyze_started [OF assms(1) run] errorMessage_def)
qed

theorem handleAnalyze_no_detections_witness:
  "cvReady earlierResults \<and>
   fst (extractDetections True (blankClip 2)) = Inr [] \<and>
   error (handleAnalyze flatProjection 2000 True (Some (blankClip 2)) earlierResults) =
      Some ''No valid ball samples detected. Ensure the ball is clearly visible and contrasts with the pitch.'' \<and>
   trajectory (handleAnalyze flatProjection 2000 True (Some (blankClip 2)) earlierResults) =
      trajectory earlierResults \<and>
   detections (handleAnalyze flatProjection 2000 True (Some (blankClip 2)) earlierResults) =
      detections earlierResults"
proof -
  have ready: "cvReady earlierResults"
    by (simp add: earlierResults_def)
  from handleAnalyze_no_detections [OF ready extractDetections_blankClip] ready
    extractDetections_blankClip [of 2]
  show ?thesis
    by (intro conjI) blast+
qed

section \<open>Claim C5: missing intrinsic dimensions\<close>

text \<open>
  Claim C5, amended. \<open>extractDetections\<close> throws the error "Video dimensions
  unavailable. Please choose a different file." if and only if the intrinsic width or
  height of the video is zero when sampling begins, and it does so before any sampling
  step, with nothing reported as progress. The failure reaches \<open>handleAnalyze\<close>,
  whose run ends with that message and is not repeated: the state is the one before the
  run with the message set, the progress at zero and the analysing flag cleared.
\<close>

theorem extractDetections_dimensions_unavailable:
  "(fst (extractDetections ctx video) =
      Inl (Error ''Video dimensions unavailable. Please choose a different file.'') \<longleftrightarrow>
    videoWidth video = 0 \<or> videoHeight video = 0) \<and>
   (videoWidth video = 0 \<or> videoHeight video = 0 \<longrightarrow>
      extractDetections ctx video =
        (Inl (Error ''Video dimensions unavailable. Please choose a different file.''), [])) \<and>
   (videoWidth video = 0 \<or> videoHeight video = 0 \<longrightarrow> cvReady s \<longrightarrow>
      handleAnalyze convert now ctx (Some video) s =
        s\<lparr>error := Some ''Video dimensions unavailable. Please choose a different file.'',
          progress := Num 0, isAnalyzing := False\<rparr>)"
proof (intro conjI impI)
  show "fst (extractDetections ctx video) =
      Inl (Error ''Video dimensions unavailable. Please choose a different file.'') \<longleftrightarrow>
    videoWidth video = 0 \<or> videoHeight video = 0"
  proof
    assume "fst (extractDetections ctx video) =
      Inl (Error ''Video dimensions unavailable. Please choose a different file.'')"
    then have "extractDetections ctx video =
      (Inl (Error ''Video dimensions unavailable. Please choose a different file.''),
       snd (extractDetections ctx video))"
      by (metis prod.collapse)
    from extractDetections_errors [OF this]
    show "videoWidth video = 0 \<or> videoHeight video = 0"
      by simp
  next
    assume "videoWidth video = 0 \<or> videoHeight video = 0"
    then show "fst (extractDetections ctx video) =
      Inl (Error ''Video dimensions unavailable. Please choose a different file.'')"
      by (auto simp: extractDetections_def)
  qed
next
  assume "videoWidth video = 0 \<or> videoHeight video = 0"
  then show run: "extractDetections ctx video =
      (Inl (Error ''Video dimensions unavailable. Please choose a different file.''), [])"
    by (auto simp: extractDetections_def)
  assume "cvReady s"
  from handleAnalyze_started [OF this run]
  show "handleAnalyze convert now ctx (Some video) s =
      s\<lparr>error := Some ''Video dimensions unavailable. Please choose a different file.'',
        progress := Num 0, isAnalyzing := False\<rparr>"
    by (simp add: errorMessage_def)
qed

theorem extractDetections_dimensions_unavailable_witness:
  "videoWidth noDimsClip = 0 \<and> cvReady earlierResults \<and>
   fst (extractDetections True noDimsClip) =
     Inl (Error ''Video dimensions unavailable. Please choose a different file.'') \<and>
   extractDetections True noDimsClip =
     (Inl (Error ''Video dimensions unavailable. Please choose a different file.''), []) \<and>
   handleAnalyze flatProjection 2000 True (Some noDimsClip) earlierResults =
     earlierResults\<lparr>error := Some ''Video dimensions unavailable. Please choose a different file.'',
       progress := Num 0, isAnalyzing := False\<rparr>"
proof -
  have dims: "videoWidth noDimsClip = 0"
    by (simp add: noDimsClip_def)
  have ready: "cvReady earlierResults"
    by (simp add: earlierResults_def)
  note claim = extractDetections_dimensions_unavailable
    [of True noDimsClip earlierResults flatProjection 2000]
  from claim dims ready show ?thesis
    by (intro conjI) blast+
qed

theorem extractDetections_other_immediate_error_counterexample:
  "extractDetections False (blankClip 2) =
     (Inl (Error ''Unable to create analysis surface.''), []) \<and>
   \<not> (videoWidth (blankClip 2) = 0 \<or> videoHeight (blankClip 2) = 0)"
  by (simp add: extractDetections_def blankClip_def clip_def)

section \<open>Claim C6: the confidence of a candidate\<close>

text \<open>
  Claim C6. Whenever \<open>detectBall\<close> returns a candidate, some contour has an area of
  at least 15 and a perimeter other than zero, and the candidate's confidence is
  \<open>min(1, bestScore / 1500)\<close>, where \<open>bestScore\<close> is the greatest combined score,
  circularity times area, among those contours. Hence the confidence of every candidate,
  and of every detection point that \<open>extractDetections\<close> builds from one, lies
  between 0 and 1.
\<close>

theorem detectBall_confidence:
  "(detectBall f H = (Inr (Some c), H') \<longrightarrow>
      {q \<in> set (contours f). qualifies q} \<noteq> {} \<and>
      cand_confidence c =
        min 1 (Max (combinedScore ` {q \<in> set (contours f). qualifies q}) / 1500) \<and>
      0 \<le> cand_confidence c \<and> cand_confidence c \<le> 1) \<and>
   (extractDetections ctx video = (Inr dets, reported) \<longrightarrow>
      (\<forall>p\<in>set dets. 0 \<le> dp_confidence p \<and> dp_confidence p \<le> 1))"
proof (intro conjI impI)
  assume run: "detectBall f H = (Inr (Some c), H')"
  from detectBall_bestScore [OF run]
  show "{q \<in> set (contours f). qualifies q} \<noteq> {}"
    and "cand_confidence c =
        min 1 (Max (combinedScore ` {q \<in> set (contours f). qualifies q}) / 1500)"
    by simp_all
  from run have "fst (detectBall f H) = Inr (Some c)"
    by simp
  from fst_detectBall_confidence [OF this]
  show "0 \<le> cand_confidence c" and "cand_confidence c \<le> 1"
    by simp_all
next
  assume run: "extractDetections ctx video = (Inr dets, reported)"
  from extractDetections_detections [OF this]
  show "\<forall>p\<in>set dets. 0 \<le> dp_confidence p \<and> dp_confidence p \<le> 1"
    by simp
qed

theorem detectBall_confidence_witness:
  "detectBall \<lparr>mat_cols = 640, mat_rows = 360, contours = [speck, ball]\<rparr> emptyHeap =
     (Inr (Some \<lparr>cand_x = 320, cand_y = 180,
                 cand_confidence = 4421398595017775 / 68398419340689408\<rparr>),
      \<lparr>nextHandle = 18, live = [15]\<rparr>) \<and>
   {q \<in> set [speck, ball]. qualifies q} \<noteq> {} \<and>
   (4421398595017775 / 68398419340689408 :: rat) =
     min 1 (Max (combinedScore ` {q \<in> set [speck, ball]. qualifies q}) / 1500) \<and>
   extractDetections True ballClip =
     (Inr [\<lparr>dp_time = 0, dp_x = 320, dp_y = 180, dp_normX = 1 / 2, dp_normY = 1 / 2,
            dp_confidence = 4421398595017775 / 68398419340689408\<rparr>,
           \<lparr>dp_time = 5764607523034235 / 72057594037927936, dp_x = 320, dp_y = 180,
            dp_normX = 1 / 2, dp_normY = 1 / 2,
            dp_confidence = 4421398595017775 / 68398419340689408\<rparr>],
      [Num 0, Num (5764607523034235 / 9007199254740992)]) \<and>
   0 \<le> dp_confidence
     \<lparr>dp_time = 5764607523034235 / 72057594037927936, dp_x = 320, dp_y = 180,
      dp_normX = 1 / 2, dp_normY = 1 / 2,
      dp_confidence = 4421398595017775 / 68398419340689408\<rparr> \<and>
   dp_confidence
     \<lparr>dp_time = 5764607523034235 / 72057594037927936, dp_x = 320, dp_y = 180,
      dp_normX = 1 / 2, dp_normY = 1 / 2,
      dp_confidence = 4421398595017775 / 68398419340689408\<rparr> \<le> 1"
proof -
  note first = detectBall_confidence [THEN conjunct1, rule_format, OF detectBall_speck_ball]
  note second = detectBall_confidence [THEN conjunct2, rule_format, OF extractDetections_ballClip]
  from first have "{q \<in> set [speck, ball]. qualifies q} \<noteq> {}"
    and "(4421398595017775 / 68398419340689408 :: rat) =
     min 1 (Max (combinedScore ` {q \<in> set [speck, ball]. qualifies q}) / 1500)"
    by simp_all
  moreover from second have "0 \<le> dp_confidence
     \<lparr>dp_time = 5764607523034235 / 72057594037927936, dp_x = 320, dp_y = 180,
      dp_normX = 1 / 2, dp_normY = 1 / 2,
      dp_confidence = 4421398595017775 / 68398419340689408\<rparr>"
    and "dp_confidence
     \<lparr>dp_time = 5764607523034235 / 72057594037927936, dp_x = 320, dp_y = 180,
      dp_normX = 1 / 2, dp_normY = 1 / 2,
      dp_confidence = 4421398595017775 / 68398419340689408\<rparr> \<le> 1"
    by simp_all
  ultimately show ?thesis
    using detectBall_speck_ball extractDetections_ballClip by (intro conjI) blast+
qed

section \<open>Claim C7: the detections are ordered in time\<close>

text \<open>
  Claim C7. The detections that \<open>extractDetections\<close> returns are strictly increasing
  in time: each sampled step appends at most one detection, stamped with the time of the
  step, and the next step is later by the sampling interval, which is at least 0.08
  seconds. In the arithmetic of the program the time of a detection is at least the
  rounded sum of the time of the one before it and the interval, which is later by 0.08
  seconds up to the rounding of that sum, a fraction of less than \<open>2\<^sup>-\<^sup>4\<^sup>4\<close>. Every
  point has \<open>normX = x / width\<close> and \<open>normY = y / height\<close> exactly.
\<close>

theorem extractDetections_times_increasing:
  assumes "extractDetections ctx video = (Inr dets, reported)"
  shows "sorted_wrt (<) (map dp_time dets) \<and>
    (\<forall>n. Suc n < length dets \<longrightarrow>
       dp_time (dets ! n) < dp_time (dets ! Suc n) \<and>
       b64 (dp_time (dets ! n) + sampleIntervalOf (duration video)) \<le> dp_time (dets ! Suc n) \<and>
       dp_time (dets ! n) + 8 / 100 * (1 - 1 / 2 ^ 44) \<le> dp_time (dets ! Suc n)) \<and>
    8 / 100 \<le> sampleIntervalOf (duration video) \<and>
    length dets \<le> length reported \<and>
    (\<forall>p\<in>set dets.
       dp_normX p = of_int (dp_x p) / of_nat (videoWidth video) \<and>
       dp_normY p = of_int (dp_y p) / of_nat (videoHeight video))"
proof -
  define d where "d = duration video"
  define i where "i = sampleIntervalOf d"
  from extractDetections_detections [OF assms]
  have gaps: "sorted_wrt (\<lambda>a b. b64 (a + i) \<le> b) (map dp_time dets)"
    and range: "\<forall>p\<in>set dets. 0 \<le> dp_time p \<and> dp_time p \<le> d"
    and points: "\<forall>p\<in>set dets.
       dp_normX p = of_int (dp_x p) / of_nat (videoWidth video) \<and>
       dp_normY p = of_int (dp_y p) / of_nat (videoHeight video)"
    and count: "length dets \<le> length reported"
    by (simp_all add: i_def d_def)
  have consecutive: "dp_time (dets ! n) < dp_time (dets ! Suc n) \<and>
      b64 (dp_time (dets ! n) + i) \<le> dp_time (dets ! Suc n) \<and>
      dp_time (dets ! n) + 8 / 100 * (1 - 1 / 2 ^ 44) \<le> dp_time (dets ! Suc n)"
    if "Suc n < length dets" for n
  proof -
    from gaps that have "b64 (map dp_time dets ! n + i) \<le> map dp_time dets ! Suc n"
      by (simp add: sorted_wrt_iff_nth_less del: nth_map)
    with that have rounded: "b64 (dp_time (dets ! n) + i) \<le> dp_time (dets ! Suc n)"
      by simp
    from that range have "0 \<le> dp_time (dets ! n) \<and> dp_time (dets ! n) \<le> d"
      by simp
    with sampleIntervalOf_step [of "dp_time (dets ! n)" d]
      sampleIntervalOf_gap [of "dp_time (dets ! n)" d]
    have "dp_time (dets ! n) < b64 (dp_time (dets ! n) + i)"
      and "dp_time (dets ! n) + 8 / 100 * (1 - 1 / 2 ^ 44) \<le> b64 (dp_time (dets ! n) + i)"
      by (simp_all add: i_def)
    with rounded show ?thesis
      by linarith
  qed
  have sorted: "sorted_wrt (<) (map dp_time dets)"
  proof -
    have "a < b" if "a \<in> set (map dp_time dets)" and "b64 (a + i) \<le> b" for a b
    proof -
      from that(1) range have "0 \<le> a \<and> a \<le> d"
        by auto
      with sampleIntervalOf_step [of a d] have "a < b64 (a + i)"
        by (simp add: i_def)
      with that(2) show ?thesis
        by simp
    qed
    with gaps show ?thesis
      by (rule_tac sorted_wrt_mono_rel [where P = "\<lambda>a b. b64 (a + i) \<le> b"]) auto
  qed
  have "8 / 100 \<le> i"
    unfolding i_def by (rule sampleIntervalOf_ge_decimal)
  with sorted consecutive count points show ?thesis
    unfolding i_def d_def by blast
qed

theorem extractDetections_times_increasing_witness:
  "extractDetections True ballClip =
     (Inr [\<lparr>dp_time = 0, dp_x = 320, dp_y = 180, dp_normX = 1 / 2, dp_normY = 1 / 2,
            dp_confidence = 4421398595017775 / 68398419340689408\<rparr>,
           \<lparr>dp_time = 5764607523034235 / 72057594037927936, dp_x = 320, dp_y = 180,
            dp_normX = 1 / 2, dp_normY = 1 / 2,
            dp_confidence = 4421398595017775 / 68398419340689408\<rparr>],
      [Num 0, Num (5764607523034235 / 9007199254740992)]) \<and>
   sorted_wrt (<) (map dp_time
     [\<lparr>dp_time = 0, dp_x = 320, dp_y = 180, dp_normX = 1 / 2, dp_normY = 1 / 2,
       dp_confidence = 4421398595017775 / 68398419340689408\<rparr>,
      \<lparr>dp_time = 5764607523034235 / 72057594037927936, dp_x = 320, dp_y = 180,
       dp_normX = 1 / 2, dp_normY = 1 / 2,
       dp_confidence = 4421398595017775 / 68398419340689408\<rparr>]) \<and>
   b64 (0 + sampleIntervalOf (duration ballClip)) \<le> 5764607523034235 / 72057594037927936 \<and>
   (0 :: rat) + 8 / 100 * (1 - 1 / 2 ^ 44) \<le> 5764607523034235 / 72057594037927936 \<and>
   8 / 100 \<le> sampleIntervalOf (duration ballClip) \<and>
   dp_normX \<lparr>dp_time = 5764607523034235 / 72057594037927936, dp_x = 320, dp_y = 180,
       dp_normX = 1 / 2, dp_normY = 1 / 2,
       dp_confidence = 4421398595017775 / 68398419340689408 :: rat\<rparr> =
     of_int 320 / of_nat (videoWidth ballClip) \<and>
   dp_normY \<lparr>dp_time = 5764607523034235 / 72057594037927936, dp_x = 320, dp_y = 180,
       dp_normX = 1 / 2, dp_normY = 1 / 2,
       dp_confidence = 4421398595017775 / 68398419340689408 :: rat\<rparr> =
     of_int 180 / of_nat (videoHeight ballClip)"
proof -
  note claim = extractDetections_times_increasing [OF extractDetections_ballClip]
  from claim have sorted: "sorted_wrt (<) (map dp_time
     [\<lparr>dp_time = 0, dp_x = 320, dp_y = 180, dp_normX = 1 / 2, dp_normY = 1 / 2,
       dp_confidence = 4421398595017775 / 68398419340689408\<rparr>,
      \<lparr>dp_time = 5764607523034235 / 72057594037927936, dp_x = 320, dp_y = 180,
       dp_normX = 1 / 2, dp_normY = 1 / 2,
       dp_confidence = 4421398595017775 / 68398419340689408\<rparr>])"
    by blast
  from claim have gap:
    "b64 (0 + sampleIntervalOf (duration ballClip)) \<le> 5764607523034235 / 72057594037927936"
    "(0 :: rat) + 8 / 100 * (1 - 1 / 2 ^ 44) \<le> 5764607523034235 / 72057594037927936"
    by simp_all
  from claim have interval: "8 / 100 \<le> sampleIntervalOf (duration ballClip)"
    by blast
  from claim have norm: "dp_normX \<lparr>dp_time = 5764607523034235 / 72057594037927936,
       dp_x = 320, dp_y = 180, dp_normX = 1 / 2, dp_normY = 1 / 2,
       dp_confidence = 4421398595017775 / 68398419340689408 :: rat\<rparr> =
     of_int 320 / of_nat (videoWidth ballClip)"
    "dp_normY \<lparr>dp_time = 5764607523034235 / 72057594037927936, dp_x = 320, dp_y = 180,
       dp_normX = 1 / 2, dp_normY = 1 / 2,
       dp_confidence = 4421398595017775 / 68398419340689408 :: rat\<rparr> =
     of_int 180 / of_nat (videoHeight ballClip)"
    by simp_all
  from sorted gap interval norm extractDetections_ballClip show ?thesis
    by (intro conjI)
qed

section \<open>Claim C8: the bounce point\<close>

text \<open>
  Claim C8. The bounce point of the Hawk-Eye view is the first point, scanning in time
  order from index 1, whose height is strictly below the height of its immediate
  predecessor; the distance reported for the bounce (the point handed to the renderer and
  the vertical position of the impact circle) is that very point's distance. When no point
  is lower than its predecessor, as in a rising or a single-point trajectory, no bounce is
  marked.
\<close>

theorem bouncePoint_first_descent:
  "case bouncePoint points of
     None \<Rightarrow>
       (\<forall>i. 0 < i \<and> i < length points \<longrightarrow>
            \<not> hp_height (points ! i) < hp_height (points ! (i - 1)))
   | Some p \<Rightarrow>
       (\<exists>i. 0 < i \<and> i < length points \<and>
            hp_height (points ! i) < hp_height (points ! (i - 1)) \<and>
            (\<forall>j. 0 < j \<and> j < i \<longrightarrow>
                 \<not> hp_height (points ! j) < hp_height (points ! (j - 1))) \<and>
            p = points ! i \<and>
            hp_distance p = hp_distance (points ! i) \<and>
            snd (bounceMarker p) = 200 - (hp_distance (points ! i) / PITCH_LENGTH_METERS) * 180)"
proof (cases "firstDescent points")
  case None
  then have "\<forall>i<length points. \<not> descends points i"
    by (simp add: firstDescent_def find_upt_None)
  then have "\<forall>i. 0 < i \<and> i < length points \<longrightarrow>
      \<not> hp_height (points ! i) < hp_height (points ! (i - 1))"
    by (auto simp: descends_def)
  with None show ?thesis
    by (simp add: bouncePoint_firstDescent)
next
  case (Some i)
  then have i: "i < length points" "descends points i" and first: "\<forall>j<i. \<not> descends points j"
    by (simp_all add: firstDescent_def find_upt_Some)
  from first i(1) have "\<forall>j. 0 < j \<and> j < i \<longrightarrow>
      \<not> hp_height (points ! j) < hp_height (points ! (j - 1))"
    by (auto simp: descends_def)
  moreover from i have "0 < i" "hp_height (points ! i) < hp_height (points ! (i - 1))"
    by (simp_all add: descends_def)
  ultimately show ?thesis
    using Some i(1) by (auto simp: bouncePoint_firstDescent bounceMarker_def)
qed

lemma bouncePoint_demoTrajectory:
  "bouncePoint demoTrajectory = Some (demoTrajectory ! 2)"
  by (simp add: bouncePoint_def demoTrajectory_def bounceStep_def isBounceCandidate_def
      upt_rec [of 0] upt_rec [of 1] upt_rec [of 2] upt_rec [of 3])

theorem bouncePoint_first_descent_witness:
  "bouncePoint demoTrajectory = Some (demoTrajectory ! 2) \<and>
   (\<exists>i. 0 < i \<and> i < length demoTrajectory \<and>
        hp_height (demoTrajectory ! i) < hp_height (demoTrajectory ! (i - 1)) \<and>
        (\<forall>j. 0 < j \<and> j < i \<longrightarrow>
             \<not> hp_height (demoTrajectory ! j) < hp_height (demoTrajectory ! (j - 1))) \<and>
        demoTrajectory ! 2 = demoTrajectory ! i \<and>
        hp_distance (demoTrajectory ! 2) = hp_distance (demoTrajectory ! i) \<and>
        snd (bounceMarker (demoTrajectory ! 2)) =
          200 - (hp_distance (demoTrajectory ! i) / PITCH_LENGTH_METERS) * 180)"
  using bouncePoint_first_descent [of demoTrajectory]
  by (simp add: bouncePoint_demoTrajectory)

section \<open>Claim C9: the projection preserves length, order, time and confidence\<close>

text \<open>
  Claim C9. For every sequence of detections, whatever the mappings to distance, lateral
  offset and height are, \<open>convertDetectionsToHawkEye\<close> returns a sequence of the
  same length, and the point at every index has the time and the confidence of the
  detection at that index.
\<close>

theorem convertDetectionsToHawkEye_preserves:
  "length (convertDetectionsToHawkEye distanceOf lateralOf heightOf D) = length D \<and>
   (\<forall>n<length D.
      hp_time (convertDetectionsToHawkEye distanceOf lateralOf heightOf D ! n) = dp_time (D ! n) \<and>
      hp_confidence (convertDetectionsToHawkEye distanceOf lateralOf heightOf D ! n) =
        dp_confidence (D ! n)) \<and>
   map hp_time (convertDetectionsToHawkEye distanceOf lateralOf heightOf D) = map dp_time D \<and>
   map hp_confidence (convertDetectionsToHawkEye distanceOf lateralOf heightOf D) =
     map dp_confidence D"
  by (simp add: convertDetectionsToHawkEye_def projectPoint_def comp_def)

theorem convertDetectionsToHawkEye_preserves_witness:
  "length (convertDetectionsToHawkEye (\<lambda>nx ny. 20 * (1 - ny)) (\<lambda>nx ny. 4 * nx - 2)
       (\<lambda>nx ny. 2 * ny) (detections earlierResults)) = length (detections earlierResults) \<and>
   length (detections earlierResults) = 1 \<and>
   hp_time (convertDetectionsToHawkEye (\<lambda>nx ny. 20 * (1 - ny)) (\<lambda>nx ny. 4 * nx - 2)
       (\<lambda>nx ny. 2 * ny) (detections earlierResults) ! 0) =
     dp_time (detections earlierResults ! 0) \<and>
   hp_confidence (convertDetectionsToHawkEye (\<lambda>nx ny. 20 * (1 - ny)) (\<lambda>nx ny. 4 * nx - 2)
       (\<lambda>nx ny. 2 * ny) (detections earlierResults) ! 0) =
     dp_confidence (detections earlierResults ! 0)"
proof -
  have len: "length (detections earlierResults) = 1"
    by (simp add: earlierResults_def)
  note claim = convertDetectionsToHawkEye_preserves
    [of "\<lambda>nx ny. 20 * (1 - ny)" "\<lambda>nx ny. 4 * nx - 2" "\<lambda>nx ny. 2 * ny"
      "detections earlierResults"]
  from claim len show ?thesis
    by (intro conjI) simp_all
qed

section \<open>Claim C10: a failed run keeps the earlier results\<close>

text \<open>
  Claim C10. When a run fails, because \<open>extractDetections\<close> rejects (a failed
  seek, missing dimensions), because no detection was found or because the projection
  throws, the detections, the trajectory and the time stamp of the analysis are those from
  before the run: the state differs from the earlier one in the error message, the
  progress and the analysing flag only. Detections and trajectory change only together,
  after sampling has returned detections and the projection has returned their
  trajectory. A run that does not start sets the error message alone.
\<close>

theorem handleAnalyze_failure_keeps_results:
  "(cvReady s \<and> runFailed convert ctx video \<longrightarrow>
      (\<exists>message p. handleAnalyze convert now ctx (Some video) s =
         s\<lparr>error := Some message, progress := p, isAnalyzing := False\<rparr>) \<and>
      detections (handleAnalyze convert now ctx (Some video) s) = detections s \<and>
      trajectory (handleAnalyze convert now ctx (Some video) s) = trajectory s \<and>
      analysisTimestamp (handleAnalyze convert now ctx (Some video) s) = analysisTimestamp s) \<and>
   (cvReady s \<and>
    (detections (handleAnalyze convert now ctx (Some video) s) \<noteq> detections s \<or>
     trajectory (handleAnalyze convert now ctx (Some video) s) \<noteq> trajectory s \<or>
     analysisTimestamp (handleAnalyze convert now ctx (Some video) s) \<noteq> analysisTimestamp s) \<longrightarrow>
      (\<exists>ds hs. fst (extractDetections ctx video) = Inr ds \<and> ds \<noteq> [] \<and>
         convert ds = Inr hs \<and>
         detections (handleAnalyze convert now ctx (Some video) s) = ds \<and>
         trajectory (handleAnalyze convert now ctx (Some video) s) = hs)) \<and>
   (\<not> cvReady s \<longrightarrow>
      handleAnalyze convert now ctx (Some video) s =
        s\<lparr>error := Some ''Computer vision engine is still loading. Please wait a moment.''\<rparr>) \<and>
   handleAnalyze convert now ctx None s = s\<lparr>error := Some ''Video element is not ready yet.''\<rparr>"
proof (intro conjI impI)
  assume a: "cvReady s \<and> runFailed convert ctx video"
  then obtain message p where failed: "handleAnalyze convert now ctx (Some video) s =
      s\<lparr>error := Some message, progress := p, isAnalyzing := False\<rparr>"
    using handleAnalyze_failed [of s convert ctx video now] by blast
  then show "\<exists>message p. handleAnalyze convert now ctx (Some video) s =
      s\<lparr>error := Some message, progress := p, isAnalyzing := False\<rparr>"
    by blast
  from failed show "detections (handleAnalyze convert now ctx (Some video) s) = detections s"
    and "trajectory (handleAnalyze convert now ctx (Some video) s) = trajectory s"
    and "analysisTimestamp (handleAnalyze convert now ctx (Some video) s) = analysisTimestamp s"
    by simp_all
next
  assume a: "cvReady s \<and>
    (detections (handleAnalyze convert now ctx (Some video) s) \<noteq> detections s \<or>
     trajectory (handleAnalyze convert now ctx (Some video) s) \<noteq> trajectory s \<or>
     analysisTimestamp (handleAnalyze convert now ctx (Some video) s) \<noteq> analysisTimestamp s)"
  then have ready: "cvReady s"
    by simp
  have "\<not> runFailed convert ctx video"
  proof
    assume "runFailed convert ctx video"
    with ready obtain message p where "handleAnalyze convert now ctx (Some video) s =
        s\<lparr>error := Some message, progress := p, isAnalyzing := False\<rparr>"
      using handleAnalyze_failed [of s convert ctx video now] by blast
    with a show False
      by simp
  qed
  from handleAnalyze_succeeded [OF ready this, of now]
  obtain ds hs where "fst (extractDetections ctx video) = Inr ds" "ds \<noteq> []"
    "convert ds = Inr hs"
    "handleAnalyze convert now ctx (Some video) s =
      s\<lparr>error := None, isAnalyzing := False, detections := ds, trajectory := hs,
        analysisTimestamp := Some now, progress := Num 1\<rparr>"
    by blast
  then show "\<exists>ds hs. fst (extractDetections ctx video) = Inr ds \<and> ds \<noteq> [] \<and>
         convert ds = Inr hs \<and>
         detections (handleAnalyze convert now ctx (Some video) s) = ds \<and>
         trajectory (handleAnalyze convert now ctx (Some video) s) = hs"
    by simp
next
  assume "\<not> cvReady s"
  then show "handleAnalyze convert now ctx (Some video) s =
      s\<lparr>error := Some ''Computer vision engine is still loading. Please wait a moment.''\<rparr>"
    by (simp add: handleAnalyze_def)
next
  show "handleAnalyze convert now ctx None s =
      s\<lparr>error := Some ''Video element is not ready yet.''\<rparr>"
    by (simp add: handleAnalyze_def)
qed

theorem handleAnalyze_failure_keeps_results_witness:
  "cvReady earlierResults \<and> runFailed flatProjection True brokenClip \<and>
   handleAnalyze flatProjection 2000 True (Some brokenClip) earlierResults =
     earlierResults\<lparr>error := Some ''Failed to seek video frame.'', progress := Num 0,
       isAnalyzing := False\<rparr> \<and>
   detections (handleAnalyze flatProjection 2000 True (Some brokenClip) earlierResults) =
     detections earlierResults \<and>
   trajectory (handleAnalyze flatProjection 2000 True (Some brokenClip) earlierResults) =
     trajectory earlierResults \<and>
   analysisTimestamp (handleAnalyze flatProjection 2000 True (Some brokenClip) earlierResults) =
     analysisTimestamp earlierResults"
proof -
  have ready: "cvReady earlierResults"
    by (simp add: earlierResults_def)
  have failed: "runFailed flatProjection True brokenClip"
    by (simp add: runFailed_def extractDetections_brokenClip)
  have result: "handleAnalyze flatProjection 2000 True (Some brokenClip) earlierResults =
     earlierResults\<lparr>error := Some ''Failed to seek video frame.'', progress := Num 0,
       isAnalyzing := False\<rparr>"
    using handleAnalyze_started [OF ready extractDetections_brokenClip]
    by (simp add: errorMessage_def)
  note claim = handleAnalyze_failure_keeps_results
    [of earlierResults flatProjection True brokenClip 2000, THEN conjunct1, rule_format]
  from claim ready failed result show ?thesis
    by (intro conjI) blast+
qed

end
